theory Spec2Isabelle
  imports Main "HOL-Library.Sublist" "HOL-Library.AList"
    "HOL-Library.List_Lexorder" "HOL-Library.Char_ord"
begin

section \<open>Library functions of the Go runtime used by the monitor\<close>

text \<open>
  The functions of package \<open>strings\<close> that \<open>shouldExclude\<close> calls, on byte strings.
\<close>

definition HasPrefix :: "string \<Rightarrow> string \<Rightarrow> bool" where
  "HasPrefix s p = prefix p s"

definition HasSuffix :: "string \<Rightarrow> string \<Rightarrow> bool" where
  "HasSuffix s suf = suffix suf s"

definition TrimSuffix :: "string \<Rightarrow> string \<Rightarrow> string" where
  "TrimSuffix s suf = (if HasSuffix s suf then take (length s - length suf) s else s)"

fun Contains :: "string \<Rightarrow> string \<Rightarrow> bool" where
  "Contains [] sub = (sub = [])"
| "Contains (c # s) sub = (prefix sub (c # s) \<or> Contains s sub)"

text \<open>
  The functions of package \<open>path/filepath\<close> depend on the operating system (separator,
  volume names, glob syntax). They are taken as parameters: every theorem below holds for
  each choice of them. \<open>Match\<close> is the boolean that \<open>filepath.Match\<close> returns; the
  monitor discards its error, and a malformed pattern yields \<open>false\<close>.
\<close>

record pathlib =
  ToSlash :: "string \<Rightarrow> string"
  Base :: "string \<Rightarrow> string"
  Match :: "string \<Rightarrow> string \<Rightarrow> bool"
  Join :: "string \<Rightarrow> string \<Rightarrow> string"

section \<open>The file system as the monitor observes it\<close>

text \<open>
  \<open>os.FileInfo\<close> as far as the monitor reads it: \<open>IsDir()\<close>, \<open>Mode().IsRegular()\<close>
  and \<open>Size()\<close>.
\<close>

record fileinfo =
  IsDir :: bool
  IsRegular :: bool
  Size :: int

text \<open>
  What \<open>filepath.Walk\<close> finds below a path, using \<open>os.Lstat\<close> and the sorted directory
  listing: an entry whose \<open>Lstat\<close> fails, a non-directory (regular or not, with its
  size), a directory with its listed entries, or a directory whose listing fails.
\<close>

datatype fnode =
    NoStat
  | File bool int
  | Dir "(string \<times> fnode) list"
  | DirErr

fun infoOf :: "fnode \<Rightarrow> fileinfo" where
  "infoOf (File r sz) = \<lparr>IsDir = False, IsRegular = r, Size = sz\<rparr>"
| "infoOf (Dir cs) = \<lparr>IsDir = True, IsRegular = False, Size = 0\<rparr>"
| "infoOf DirErr = \<lparr>IsDir = True, IsRegular = False, Size = 0\<rparr>"
| "infoOf NoStat = \<lparr>IsDir = False, IsRegular = False, Size = 0\<rparr>"

text \<open>
  What \<open>os.Stat\<close> and reading the content say about a path: \<open>os.Stat\<close> reports that it
  does not exist; it is there but opening or reading it fails; or the content can be read
  and has the given SHA-256 digest (in hexadecimal).
\<close>

datatype pstate = Gone | Unreadable | Content string

record filesystem =
  tree :: "string \<Rightarrow> fnode"
  pstate :: "string \<Rightarrow> pstate"
  writable :: bool

section \<open>filepath.Walk\<close>

text \<open>
  The value a \<open>WalkFunc\<close> returns: \<open>nil\<close>, \<open>filepath.SkipDir\<close> or another error; and
  its arguments \<open>info\<close> and \<open>err\<close>: either an info and no error, or an error.
\<close>

datatype werr = Nil | SkipDir | Err

datatype walkArg = Visit fileinfo | VisitErr

type_synonym 's walkFunc = "string \<Rightarrow> walkArg \<Rightarrow> 's \<Rightarrow> werr \<times> 's"

fun walk :: "pathlib \<Rightarrow> 's walkFunc \<Rightarrow> string \<Rightarrow> fnode \<Rightarrow> 's \<Rightarrow> werr \<times> 's"
  and walkNames :: "pathlib \<Rightarrow> 's walkFunc \<Rightarrow> string \<Rightarrow> (string \<times> fnode) list \<Rightarrow> 's \<Rightarrow> werr \<times> 's"
where
  "walk L fn path NoStat s = fn path VisitErr s"
| "walk L fn path (File r sz) s = fn path (Visit (infoOf (File r sz))) s"
| "walk L fn path DirErr s = fn path VisitErr s"
| "walk L fn path (Dir cs) s =
     (case fn path (Visit (infoOf (Dir cs))) s of
        (Nil, s') \<Rightarrow> walkNames L fn path cs s'
      | (e, s') \<Rightarrow> (e, s'))"
| "walkNames L fn path [] s = (Nil, s)"
| "walkNames L fn path ((name, node) # rest) s =
     (case walk L fn (Join L path name) node s of
        (Nil, s') \<Rightarrow> walkNames L fn path rest s'
      | (SkipDir, s') \<Rightarrow>
          (case node of File r sz \<Rightarrow> (SkipDir, s') | _ \<Rightarrow> walkNames L fn path rest s')
      | (Err, s') \<Rightarrow> (Err, s'))"

definition Walk :: "pathlib \<Rightarrow> 's walkFunc \<Rightarrow> string \<Rightarrow> fnode \<Rightarrow> 's \<Rightarrow> werr \<times> 's" where
  "Walk L fn root node s =
     (case walk L fn root node s of (SkipDir, s') \<Rightarrow> (Nil, s') | r \<Rightarrow> r)"

section \<open>The monitor\<close>

record config =
  monitorDirs :: "string list"
  exclude :: "string list"
  MaxFileSize :: int

datatype event =
    NewFile string int string
  | ModifiedFile string int string string
  | DeletedFile string

fun eventPath :: "event \<Rightarrow> string" where
  "eventPath (NewFile p sz h) = p"
| "eventPath (ModifiedFile p sz old new) = p"
| "eventPath (DeletedFile p) = p"

section \<open>Writing the data base: encoding/json\<close>

text \<open>
  \<open>json.MarshalIndent(hashDB, "", "  ")\<close> for a \<open>map[string]string\<close>, on bytes. A string
  is written between double quotes by \<open>appendString\<close> (with \<open>escapeHTML\<close> set): a byte
  below \<open>0x80\<close> is copied when the table \<open>htmlSafeSet\<close> allows it and escaped
  otherwise; a well-formed UTF-8 sequence is copied (U+2028 and U+2029 are escaped); a byte
  that starts no well-formed sequence is written as the escape of U+FFFD. \<open>runeLen\<close> is
  the length that \<open>utf8.DecodeRuneInString\<close> finds at the front of a string, and \<open>0\<close>
  where it reports an invalid byte. The keys of the map are written in increasing order.
  The documentation of the package says it: string values are coerced to valid UTF-8, and
  an invalid byte is replaced by the replacement rune U+FFFD. (The escapes of the bytes
  \<open>0x08\<close> and \<open>0x0C\<close> are those of Go 1.22; earlier releases write them with
  \<open>u0008\<close> and \<open>u000c\<close>.)
\<close>

definition byte :: "char \<Rightarrow> nat" where
  "byte c = of_char c"

definition hex :: "nat \<Rightarrow> char" where
  "hex n = ''0123456789abcdef'' ! n"

definition htmlSafe :: "char \<Rightarrow> bool" where
  "htmlSafe c = (0x20 \<le> byte c \<and> byte c < 0x80 \<and> c \<noteq> CHR 0x22 \<and> c \<noteq> CHR ''&'' \<and>
                 c \<noteq> CHR ''<'' \<and> c \<noteq> CHR ''>'' \<and> c \<noteq> CHR 0x5C)"

definition escapeByte :: "char \<Rightarrow> string" where
  "escapeByte c =
     (if c = CHR 0x5C \<or> c = CHR 0x22 then [CHR 0x5C, c]
      else if c = CHR 0x08 then [CHR 0x5C, CHR ''b'']
      else if c = CHR 0x0C then [CHR 0x5C, CHR ''f'']
      else if c = CHR 0x0A then [CHR 0x5C, CHR ''n'']
      else if c = CHR 0x0D then [CHR 0x5C, CHR ''r'']
      else if c = CHR 0x09 then [CHR 0x5C, CHR ''t'']
      else [CHR 0x5C, CHR ''u'', CHR ''0'', CHR ''0'', hex (byte c div 16), hex (byte c mod 16)])"

definition between :: "nat \<Rightarrow> nat \<Rightarrow> char \<Rightarrow> bool" where
  "between lo hi c = (lo \<le> byte c \<and> byte c \<le> hi)"

fun runeLen :: "string \<Rightarrow> nat" where
  "runeLen [] = 0"
| "runeLen (b0 # rest) =
     (if byte b0 < 0x80 then 1
      else if between 0xC2 0xDF b0 then
        (case rest of b1 # _ \<Rightarrow> if between 0x80 0xBF b1 then 2 else 0 | _ \<Rightarrow> 0)
      else if between 0xE0 0xEF b0 then
        (case rest of
           b1 # b2 # _ \<Rightarrow>
             if between (if byte b0 = 0xE0 then 0xA0 else 0x80)
                        (if byte b0 = 0xED then 0x9F else 0xBF) b1 \<and>
                between 0x80 0xBF b2 then 3 else 0
         | _ \<Rightarrow> 0)
      else if between 0xF0 0xF4 b0 then
        (case rest of
           b1 # b2 # b3 # _ \<Rightarrow>
             if between (if byte b0 = 0xF0 then 0x90 else 0x80)
                        (if byte b0 = 0xF4 then 0x8F else 0xBF) b1 \<and>
                between 0x80 0xBF b2 \<and> between 0x80 0xBF b3 then 4 else 0
         | _ \<Rightarrow> 0)
      else 0)"

function appendString :: "string \<Rightarrow> string" where
  "appendString [] = []"
| "appendString (b # src) =
     (if byte b < 0x80 then
        (if htmlSafe b then b # appendString src else escapeByte b @ appendString src)
      else if runeLen (b # src) = 0 then
        [CHR 0x5C, CHR ''u'', CHR ''f'', CHR ''f'', CHR ''f'', CHR ''d''] @ appendString src
      else if take 3 (b # src) = [CHR 0xE2, CHR 0x80, CHR 0xA8] \<or>
              take 3 (b # src) = [CHR 0xE2, CHR 0x80, CHR 0xA9] then
        [CHR 0x5C, CHR ''u'', CHR ''2'', CHR ''0'', CHR ''2'', hex (byte (src ! 1) mod 16)]
          @ appendString (drop 3 (b # src))
      else take (runeLen (b # src)) (b # src) @ appendString (drop (runeLen (b # src)) (b # src)))"
  by pat_completeness auto
termination
  by (relation "measure length") simp_all

definition quote :: "string \<Rightarrow> string" where
  "quote s = [CHR 0x22] @ appendString s @ [CHR 0x22]"

fun members :: "(string \<times> string) list \<Rightarrow> string" where
  "members [] = []"
| "members [(k, v)] = ''  '' @ quote k @ '': '' @ quote v"
| "members ((k, v) # kvs) =
     ''  '' @ quote k @ '': '' @ quote v @ [CHR '','', CHR 0x0A] @ members kvs"

definition MarshalIndent :: "(string \<times> string) list \<Rightarrow> string" where
  "MarshalIndent db =
     (if db = [] then ''{}''
      else ''{'' @ [CHR 0x0A] @ members (sort_key fst db) @ [CHR 0x0A] @ ''}'')"

text \<open>
  What \<open>initHashDB\<close> finds when it loads the file \<open>hashDBFile\<close>: \<open>os.Stat\<close> fails (on
  the first run the file is absent); \<open>os.ReadFile\<close> fails; \<open>json.Unmarshal\<close> reports an
  error; or it succeeds. In the last two cases, with the map \<open>hashDB\<close> as
  \<open>json.Unmarshal\<close> leaves it. (A file that holds the JSON value \<open>null\<close>, which makes
  the map \<open>nil\<close>, is not covered.)
\<close>

datatype loaded =
    StatFail
  | ReadFail
  | ParseFail "(string \<times> string) list"
  | Parsed "(string \<times> string) list"

text \<open>
  The global state: the map \<open>hashDB\<close> (its keys are distinct; the order of the list is the
  order in which \<open>range\<close> runs over them), the alerts written so far, the flag
  \<open>changesDetected\<close> of the running check, and the bytes that \<open>saveHashDB\<close> wrote
  last to the file \<open>hashDBFile\<close>, if any.
\<close>

record mstate =
  hashDB :: "(string \<times> string) list"
  alerts :: "event list"
  changesDetected :: bool
  dbFile :: "string option"

fun shouldExclude :: "pathlib \<Rightarrow> string \<Rightarrow> string list \<Rightarrow> bool" where
  "shouldExclude L path [] = False"
| "shouldExclude L path (pattern # rest) =
     (let normalizedPath = ToSlash L path in
      if HasSuffix pattern ''/'' then
        (if HasPrefix normalizedPath (TrimSuffix pattern ''/'' @ ''/'') then True
         else shouldExclude L path rest)
      else if Contains pattern ''*'' then
        (if Match L pattern (Base L normalizedPath) then True
         else shouldExclude L path rest)
      else if normalizedPath = pattern then True
      else shouldExclude L path rest)"

definition calculateFileHash :: "filesystem \<Rightarrow> string \<Rightarrow> string option" where
  "calculateFileHash fs filePath =
     (case pstate fs filePath of Content h \<Rightarrow> Some h | _ \<Rightarrow> None)"

definition notExist :: "filesystem \<Rightarrow> string \<Rightarrow> bool" where
  "notExist fs path = (pstate fs path = Gone)"

definition saveHashDB :: "filesystem \<Rightarrow> mstate \<Rightarrow> mstate" where
  "saveHashDB fs st =
     (if writable fs then st\<lparr>dbFile := Some (MarshalIndent (hashDB st))\<rparr> else st)"

text \<open>The function literal that \<open>checkFiles\<close> passes to \<open>filepath.Walk\<close> for \<open>dir\<close>.\<close>

definition checkFile ::
  "pathlib \<Rightarrow> filesystem \<Rightarrow> config \<Rightarrow> string \<Rightarrow> mstate walkFunc" where
  "checkFile L fs cfg dir path arg st =
     (case arg of
        VisitErr \<Rightarrow> (Err, st)
      | Visit info \<Rightarrow>
          if path = dir then (Nil, st)
          else if shouldExclude L path (exclude cfg) then
            (if IsDir info then (SkipDir, st) else (Nil, st))
          else if \<not> IsRegular info then (Nil, st)
          else if MaxFileSize cfg > 0 \<and> Size info > MaxFileSize cfg then (Nil, st)
          else
            (case calculateFileHash fs path of
               None \<Rightarrow> (Nil, st)
             | Some currentHash \<Rightarrow>
                 (case map_of (hashDB st) path of
                    None \<Rightarrow>
                      (Nil, st\<lparr>hashDB := AList.update path currentHash (hashDB st),
                               alerts := alerts st @ [NewFile path (Size info) currentHash],
                               changesDetected := True\<rparr>)
                  | Some storedHash \<Rightarrow>
                      if storedHash \<noteq> currentHash then
                        (Nil, st\<lparr>hashDB := AList.update path currentHash (hashDB st),
                                 alerts := alerts st @
                                   [ModifiedFile path (Size info) storedHash currentHash],
                                 changesDetected := True\<rparr>)
                      else (Nil, st))))"

text \<open>The loop over \<open>monitorDirs\<close>: an error of a walk is logged and the next root follows.\<close>

definition walkDirs ::
  "pathlib \<Rightarrow> filesystem \<Rightarrow> (string \<Rightarrow> mstate walkFunc) \<Rightarrow> string list \<Rightarrow> mstate \<Rightarrow> mstate" where
  "walkDirs L fs fn dirs st =
     foldl (\<lambda>s dir. snd (Walk L (fn dir) dir (tree fs dir) s)) st dirs"

text \<open>
  The loop \<open>for path := range hashDB\<close> of \<open>checkFiles\<close>, over the keys the map has when
  the loop starts; it deletes no key but the current one.
\<close>

fun sweep :: "pathlib \<Rightarrow> filesystem \<Rightarrow> config \<Rightarrow> string list \<Rightarrow> mstate \<Rightarrow> mstate" where
  "sweep L fs cfg [] st = st"
| "sweep L fs cfg (path # rest) st =
     sweep L fs cfg rest
       (if notExist fs path then
          (if \<not> shouldExclude L path (exclude cfg) then
             st\<lparr>hashDB := AList.delete path (hashDB st),
                alerts := alerts st @ [DeletedFile path],
                changesDetected := True\<rparr>
           else st)
        else st)"

definition deletionSweep :: "pathlib \<Rightarrow> filesystem \<Rightarrow> config \<Rightarrow> mstate \<Rightarrow> mstate" where
  "deletionSweep L fs cfg st = sweep L fs cfg (map fst (hashDB st)) st"

definition checkFiles :: "pathlib \<Rightarrow> filesystem \<Rightarrow> config \<Rightarrow> mstate \<Rightarrow> mstate" where
  "checkFiles L fs cfg st =
     (let st1 = walkDirs L fs (checkFile L fs cfg) (monitorDirs cfg)
                  (st\<lparr>changesDetected := False\<rparr>);
          st2 = deletionSweep L fs cfg st1
      in if changesDetected st2 then saveHashDB fs st2 else st2)"

text \<open>The function literal that \<open>initHashDB\<close> passes to \<open>filepath.Walk\<close>.\<close>

definition initFile :: "filesystem \<Rightarrow> string \<Rightarrow> mstate walkFunc" where
  "initFile fs dir path arg st =
     (case arg of
        VisitErr \<Rightarrow> (Err, st)
      | Visit info \<Rightarrow>
          if \<not> IsDir info then
            (case calculateFileHash fs path of
               None \<Rightarrow> (Nil, st)
             | Some hash \<Rightarrow> (Nil, st\<lparr>hashDB := AList.update path hash (hashDB st)\<rparr>))
          else (Nil, st))"

definition rebuild :: "pathlib \<Rightarrow> filesystem \<Rightarrow> config \<Rightarrow> mstate \<Rightarrow> mstate" where
  "rebuild L fs cfg st = saveHashDB fs (walkDirs L fs (initFile fs) (monitorDirs cfg) st)"

definition initHashDB ::
  "pathlib \<Rightarrow> filesystem \<Rightarrow> config \<Rightarrow> loaded \<Rightarrow> mstate \<Rightarrow> mstate" where
  "initHashDB L fs cfg file st =
     (case file of
        StatFail \<Rightarrow> rebuild L fs cfg st
      | ReadFail \<Rightarrow> rebuild L fs cfg st
      | ParseFail db \<Rightarrow> rebuild L fs cfg (st\<lparr>hashDB := db\<rparr>)
      | Parsed db \<Rightarrow> st\<lparr>hashDB := db\<rparr>)"

text \<open>
  \<open>main\<close> from \<open>initHashDB\<close> on, with the ticks of \<open>startMonitoring\<close> that have come:
  the map is empty when the program starts, and every check finds the file system of its
  time.
\<close>

definition startState :: mstate where
  "startState = \<lparr>hashDB = [], alerts = [], changesDetected = False, dbFile = None\<rparr>"

definition startMonitoring ::
  "pathlib \<Rightarrow> config \<Rightarrow> filesystem list \<Rightarrow> mstate \<Rightarrow> mstate" where
  "startMonitoring L cfg fss st = foldl (\<lambda>s fs. checkFiles L fs cfg s) st fss"

definition main ::
  "pathlib \<Rightarrow> config \<Rightarrow> loaded \<Rightarrow> filesystem \<Rightarrow> filesystem list \<Rightarrow> mstate" where
  "main L cfg file fs0 fss = startMonitoring L cfg fss (initHashDB L fs0 cfg file startState)"

section \<open>An instance of the path functions for the examples\<close>

text \<open>
  The path functions on a system whose separator is \<open>/\<close>: there \<open>ToSlash\<close> returns its
  argument. \<open>Base\<close> drops trailing separators and keeps what follows the last one.
  \<open>Match\<close> is given for patterns made of plain characters and \<open>*\<close> (which stands for
  any run of characters but the separator), \<open>Join\<close> for a cleaned directory path and the
  name of an entry.
\<close>

definition unixBase :: "string \<Rightarrow> string" where
  "unixBase path =
     (if path = [] then ''.''
      else let stripped = rev (dropWhile (\<lambda>c. c = CHR ''/'') (rev path));
               elem = rev (takeWhile (\<lambda>c. c \<noteq> CHR ''/'') (rev stripped))
           in if elem = [] then ''/'' else elem)"

fun starMatch :: "string \<Rightarrow> string \<Rightarrow> bool" where
  "starMatch [] name = (name = [])"
| "starMatch (p # ps) [] = (p = CHR ''*'' \<and> starMatch ps [])"
| "starMatch (p # ps) (c # cs) =
     (if p = CHR ''*'' then starMatch ps (c # cs) \<or> (c \<noteq> CHR ''/'' \<and> starMatch (p # ps) cs)
      else p = c \<and> starMatch ps cs)"

definition unixJoin :: "string \<Rightarrow> string \<Rightarrow> string" where
  "unixJoin dir name = (if dir = ''/'' then dir @ name else dir @ ''/'' @ name)"

definition posix :: pathlib where
  "posix = \<lparr>ToSlash = (\<lambda>p. p), Base = unixBase, Match = starMatch, Join = unixJoin\<rparr>"

section \<open>Notions used in the statements\<close>

text \<open>The test of the deletion loop: the path is reported deleted and its entry removed.\<close>

definition deletable :: "pathlib \<Rightarrow> filesystem \<Rightarrow> config \<Rightarrow> string \<Rightarrow> bool" where
  "deletable L fs cfg path = (notExist fs path \<and> \<not> shouldExclude L path (exclude cfg))"

text \<open>The alerts raised between two states, and those among some alerts that name a path.\<close>

definition newAlerts :: "mstate \<Rightarrow> mstate \<Rightarrow> event list" where
  "newAlerts st st' = drop (length (alerts st)) (alerts st')"

definition alertsFor :: "string \<Rightarrow> event list \<Rightarrow> event list" where
  "alertsFor path es = filter (\<lambda>e. eventPath e = path) es"

text \<open>
  The entries that a walk hands to its function, in order. The walk is run with a function
  that returns what \<open>ctl\<close> says and keeps a list of its arguments.
\<close>

definition tracing :: "(string \<Rightarrow> walkArg \<Rightarrow> werr) \<Rightarrow> (string \<times> walkArg) list walkFunc" where
  "tracing ctl path arg t = (ctl path arg, t @ [(path, arg)])"

definition visits :: "pathlib \<Rightarrow> (string \<Rightarrow> walkArg \<Rightarrow> werr) \<Rightarrow> string \<Rightarrow> fnode \<Rightarrow> (string \<times> walkArg) list" where
  "visits L ctl root node = snd (Walk L (tracing ctl) root node [])"

text \<open>
  Two walk functions agree: from related states they return the same value and related
  states.
\<close>

definition simulates :: "('s \<Rightarrow> 't \<Rightarrow> bool) \<Rightarrow> 's walkFunc \<Rightarrow> 't walkFunc \<Rightarrow> bool" where
  "simulates R f g = (\<forall>p a s t. R s t \<longrightarrow> fst (f p a s) = fst (g p a t) \<and> R (snd (f p a s)) (snd (g p a t)))"

text \<open>
  What the function literal of \<open>checkFiles\<close> returns for an entry, the test that an
  entry passes all its filters and reaches \<open>calculateFileHash\<close>, the files that a check
  fingerprints, in order, and what the function literal does with such a file.
\<close>

definition checkDecision :: "pathlib \<Rightarrow> config \<Rightarrow> string \<Rightarrow> string \<Rightarrow> walkArg \<Rightarrow> werr" where
  "checkDecision L cfg dir path arg =
     (case arg of
        VisitErr \<Rightarrow> Err
      | Visit info \<Rightarrow>
          if path = dir then Nil
          else if shouldExclude L path (exclude cfg) \<and> IsDir info then SkipDir
          else Nil)"

definition eligible :: "pathlib \<Rightarrow> config \<Rightarrow> string \<Rightarrow> string \<Rightarrow> fileinfo \<Rightarrow> bool" where
  "eligible L cfg dir path info =
     (path \<noteq> dir \<and> \<not> shouldExclude L path (exclude cfg) \<and> IsRegular info \<and>
      \<not> (MaxFileSize cfg > 0 \<and> Size info > MaxFileSize cfg))"

definition candidates ::
  "pathlib \<Rightarrow> config \<Rightarrow> string \<Rightarrow> string \<times> walkArg \<Rightarrow> (string \<times> fileinfo) list" where
  "candidates L cfg dir v =
     (case snd v of
        Visit info \<Rightarrow> if eligible L cfg dir (fst v) info then [(fst v, info)] else []
      | VisitErr \<Rightarrow> [])"

definition fingerprinted :: "pathlib \<Rightarrow> filesystem \<Rightarrow> config \<Rightarrow> (string \<times> fileinfo) list" where
  "fingerprinted L fs cfg =
     concat (map (\<lambda>dir. concat (map (candidates L cfg dir)
                     (visits L (checkDecision L cfg dir) dir (tree fs dir))))
                 (monitorDirs cfg))"

definition compareHash :: "filesystem \<Rightarrow> mstate \<Rightarrow> string \<times> fileinfo \<Rightarrow> mstate" where
  "compareHash fs st v =
     (case calculateFileHash fs (fst v) of
        None \<Rightarrow> st
      | Some currentHash \<Rightarrow>
          (case map_of (hashDB st) (fst v) of
             None \<Rightarrow>
               st\<lparr>hashDB := AList.update (fst v) currentHash (hashDB st),
                  alerts := alerts st @ [NewFile (fst v) (Size (snd v)) currentHash],
                  changesDetected := True\<rparr>
           | Some storedHash \<Rightarrow>
               if storedHash \<noteq> currentHash then
                 st\<lparr>hashDB := AList.update (fst v) currentHash (hashDB st),
                    alerts := alerts st @
                      [ModifiedFile (fst v) (Size (snd v)) storedHash currentHash],
                    changesDetected := True\<rparr>
               else st))"


text \<open>
  What the function literal of \<open>initHashDB\<close> returns for an entry, the paths that the
  walks of \<open>initHashDB\<close> hand to \<open>calculateFileHash\<close>, in order (every entry that is
  not a directory), and what the function literal does with such a path.
\<close>

definition initDecision :: "string \<Rightarrow> walkArg \<Rightarrow> werr" where
  "initDecision path arg = (case arg of VisitErr \<Rightarrow> Err | Visit info \<Rightarrow> Nil)"

definition nonDirs :: "string \<times> walkArg \<Rightarrow> string list" where
  "nonDirs v = (case snd v of Visit info \<Rightarrow> if \<not> IsDir info then [fst v] else [] | VisitErr \<Rightarrow> [])"

definition baselined :: "pathlib \<Rightarrow> filesystem \<Rightarrow> config \<Rightarrow> string list" where
  "baselined L fs cfg =
     concat (map (\<lambda>dir. concat (map nonDirs (visits L initDecision dir (tree fs dir))))
                 (monitorDirs cfg))"

definition storeHash :: "filesystem \<Rightarrow> mstate \<Rightarrow> string \<Rightarrow> mstate" where
  "storeHash fs st path =
     (case calculateFileHash fs path of
        None \<Rightarrow> st
      | Some hash \<Rightarrow> st\<lparr>hashDB := AList.update path hash (hashDB st)\<rparr>)"

text \<open>
  A tree without an entry whose \<open>Lstat\<close> fails and without a directory whose listing
  fails; and the entries of a tree, in the order of the walk, leaving out what lies in a
  directory that \<open>prune\<close> holds for.
\<close>

fun errorFree :: "fnode \<Rightarrow> bool"
  and errorFreeNames :: "(string \<times> fnode) list \<Rightarrow> bool"
where
  "errorFree NoStat = False"
| "errorFree DirErr = False"
| "errorFree (File r sz) = True"
| "errorFree (Dir cs) = errorFreeNames cs"
| "errorFreeNames [] = True"
| "errorFreeNames ((name, node) # rest) = (errorFree node \<and> errorFreeNames rest)"

fun below :: "pathlib \<Rightarrow> (string \<Rightarrow> bool) \<Rightarrow> string \<Rightarrow> fnode \<Rightarrow> (string \<times> fileinfo) list"
  and belowNames ::
    "pathlib \<Rightarrow> (string \<Rightarrow> bool) \<Rightarrow> string \<Rightarrow> (string \<times> fnode) list \<Rightarrow> (string \<times> fileinfo) list"
where
  "below L prune path NoStat = []"
| "below L prune path DirErr = []"
| "below L prune path (File r sz) = [(path, infoOf (File r sz))]"
| "below L prune path (Dir cs) =
     (path, infoOf (Dir cs)) # (if prune path then [] else belowNames L prune path cs)"
| "belowNames L prune path [] = []"
| "belowNames L prune path ((name, node) # rest) =
     below L prune (Join L path name) node @ belowNames L prune path rest"

text \<open>
  A function that answers \<open>SkipDir\<close> for the directories that \<open>prune\<close> holds for,
  an error for an error, and \<open>nil\<close> otherwise; and the directories that the function
  literal of \<open>checkFiles\<close> answers \<open>SkipDir\<close> for.
\<close>

definition pruning :: "(string \<Rightarrow> bool) \<Rightarrow> string \<Rightarrow> walkArg \<Rightarrow> werr" where
  "pruning prune path arg =
     (case arg of VisitErr \<Rightarrow> Err
      | Visit info \<Rightarrow> if IsDir info \<and> prune path then SkipDir else Nil)"

definition checkPrune :: "pathlib \<Rightarrow> config \<Rightarrow> string \<Rightarrow> string \<Rightarrow> bool" where
  "checkPrune L cfg dir path = (path \<noteq> dir \<and> shouldExclude L path (exclude cfg))"

text \<open>The entries of the store under one key.\<close>

definition entriesOf :: "string \<Rightarrow> mstate \<Rightarrow> (string \<times> string) list" where
  "entriesOf Q s = filter (\<lambda>kv. fst kv = Q) (hashDB s)"

text \<open>The state of a check when its walks are over and the deletion loop starts.\<close>

definition walked :: "pathlib \<Rightarrow> filesystem \<Rightarrow> config \<Rightarrow> mstate \<Rightarrow> mstate" where
  "walked L fs cfg st =
     foldl (compareHash fs) (st\<lparr>changesDetected := False\<rparr>) (fingerprinted L fs cfg)"

section \<open>A small installation for the examples\<close>

text \<open>
  The root \<open>/a\<close> with the directory \<open>b\<close> (holding the file \<open>f\<close>), the file \<open>big\<close> of
  20000000 bytes, the symbolic link \<open>link\<close> whose target is missing, the file \<open>locked\<close>
  that cannot be opened, and the file \<open>x\<close>.
  The rule \<open>/a/b/\<close> excludes the directory \<open>b\<close>; the size limit is the one that
  \<open>loadConfigFromFile\<close> sets.
\<close>

definition exTree :: fnode where
  "exTree = Dir [(''b'', Dir [(''f'', File True 5)]), (''big'', File True 20000000),
                 (''link'', File False 9), (''locked'', File True 7), (''x'', File True 3)]"

definition exFS :: filesystem where
  "exFS = \<lparr>tree = (\<lambda>p. if p = ''/a'' then exTree else NoStat),
           pstate = (\<lambda>p. if p = ''/a/x'' then Content ''h2''
                         else if p = ''/a/b/f'' then Content ''hf''
                         else if p = ''/a/big'' then Content ''hb''
                         else if p = ''/a'' \<or> p = ''/a/b'' \<or> p = ''/a/locked'' then Unreadable
                         else Gone),
           writable = True\<rparr>"

definition exCfg :: config where
  "exCfg = \<lparr>monitorDirs = [''/a''], exclude = [''/a/b/''], MaxFileSize = 10485760\<rparr>"

definition exState :: "(string \<times> string) list \<Rightarrow> mstate" where
  "exState db = \<lparr>hashDB = db, alerts = [], changesDetected = False, dbFile = None\<rparr>"

text \<open>
  The same root when the listing of a directory \<open>aaa\<close> fails; when a file \<open>v\<close> that
  the listing still names is gone by the time it is opened; and when \<open>locked\<close> can be
  read.
\<close>

definition abFS :: filesystem where
  "abFS = \<lparr>tree = (\<lambda>p. if p = ''/a'' then Dir [(''aaa'', DirErr), (''x'', File True 3)] else NoStat),
           pstate = (\<lambda>p. if p = ''/a/x'' then Content ''h2''
                         else if p = ''/a'' \<or> p = ''/a/aaa'' then Unreadable else Gone),
           writable = True\<rparr>"

definition vaFS :: filesystem where
  "vaFS = \<lparr>tree = (\<lambda>p. if p = ''/a'' then Dir [(''v'', File True 4), (''x'', File True 3)] else NoStat),
           pstate = (\<lambda>p. if p = ''/a/x'' then Content ''h2''
                         else if p = ''/a'' then Unreadable else Gone),
           writable = True\<rparr>"

definition exReadable :: filesystem where
  "exReadable = exFS\<lparr>pstate := (pstate exFS)(''/a/locked'' := Content ''h7'')\<rparr>"

text \<open>
  The scenario of the specification: the root \<open>/data\<close> with the files \<open>a.txt\<close> (whose
  content has the fingerprint \<open>h\<close>) and \<open>b.log\<close>, the rule \<open>*.log\<close>; and the same root
  when \<open>a.txt\<close> has been deleted.
\<close>

definition scCfg :: config where
  "scCfg = \<lparr>monitorDirs = [''/data''], exclude = [''*.log''], MaxFileSize = 10485760\<rparr>"

definition scFS :: "string \<Rightarrow> filesystem" where
  "scFS h = \<lparr>tree = (\<lambda>p. if p = ''/data''
                           then Dir [(''a.txt'', File True 1), (''b.log'', File True 1)]
                           else NoStat),
              pstate = (\<lambda>p. if p = ''/data/a.txt'' then Content h
                            else if p = ''/data/b.log'' then Content ''Hy''
                            else if p = ''/data'' then Unreadable else Gone),
              writable = True\<rparr>"

definition scGone :: filesystem where
  "scGone = \<lparr>tree = (\<lambda>p. if p = ''/data'' then Dir [(''b.log'', File True 1)] else NoStat),
             pstate = (\<lambda>p. if p = ''/data/b.log'' then Content ''Hy''
                           else if p = ''/data'' then Unreadable else Gone),
             writable = True\<rparr>"

section \<open>Exclusion rules\<close>

lemma dir_rule_pattern: "HasSuffix pattern ''/'' \<Longrightarrow> TrimSuffix pattern ''/'' @ ''/'' = pattern"
  by (auto simp: HasSuffix_def TrimSuffix_def suffix_def)

lemma shouldExclude_append:
  "shouldExclude L path (rs @ rs') = (shouldExclude L path rs \<or> shouldExclude L path rs')"
  by (induction rs) (auto simp: Let_def)

lemma shouldExclude_dir_rule:
  "shouldExclude L path ((D @ ''/'') # rs) =
     (prefix (D @ ''/'') (ToSlash L path) \<or> shouldExclude L path rs)"
  by (simp add: HasSuffix_def HasPrefix_def dir_rule_pattern Let_def)

text \<open>
  C3, as the code has it. A rule \<open>D/\<close> excludes a path exactly when the normalised path
  starts with \<open>D/\<close>, wherever the rule stands in the list of rules: the paths below the
  directory, and not the path \<open>D\<close> of the directory itself. The rule \<open>logs/\<close> excludes
  \<open>logs/x\<close>, and neither \<open>logs\<close> nor \<open>logs_backup/file\<close>.
\<close>

theorem directory_rule_is_prefix_test:
  "shouldExclude L path (rs @ (D @ ''/'') # rs') =
     (shouldExclude L path rs \<or> prefix (D @ ''/'') (ToSlash L path) \<or> shouldExclude L path rs')
   \<and> shouldExclude L path [D @ ''/''] = prefix (D @ ''/'') (ToSlash L path)
   \<and> shouldExclude posix ''logs/x'' [''logs/'']
   \<and> \<not> shouldExclude posix ''logs'' [''logs/'']
   \<and> \<not> shouldExclude posix ''logs_backup/file'' [''logs/'']"
  by (simp add: shouldExclude_append shouldExclude_dir_rule
      HasSuffix_def HasPrefix_def TrimSuffix_def suffix_to_prefix posix_def Let_def)

text \<open>
  C3, as the specification words it, fails: the rule \<open>logs/\<close> does not exclude the path
  \<open>logs\<close> of the directory itself.
\<close>

theorem directory_rule_not_directory_itself:
  "\<not> (shouldExclude posix ''logs'' [''logs/''] \<and> shouldExclude posix ''logs/x'' [''logs/'']
      \<and> \<not> shouldExclude posix ''logs_backup/file'' [''logs/''])"
  by (simp add: HasSuffix_def HasPrefix_def TrimSuffix_def suffix_to_prefix posix_def Let_def)

section \<open>The deletion loop\<close>

lemma sweep_hashDB:
  "hashDB (sweep L fs cfg ks st) =
     filter (\<lambda>kv. \<not> (fst kv \<in> set ks \<and> deletable L fs cfg (fst kv))) (hashDB st)"
proof (induction ks arbitrary: st)
  case Nil
  then show ?case by simp
next
  case (Cons k ks)
  show ?case
    by (auto simp: Cons.IH deletable_def AList.delete_eq intro!: filter_cong)
qed

lemma sweep_alerts:
  "alerts (sweep L fs cfg ks st) = alerts st @ map DeletedFile (filter (deletable L fs cfg) ks)"
  by (induction ks arbitrary: st) (auto simp: deletable_def)

lemma sweep_dbFile: "dbFile (sweep L fs cfg ks st) = dbFile st"
  by (induction ks arbitrary: st) auto

lemma sweep_changes:
  "changesDetected (sweep L fs cfg ks st) =
     (changesDetected st \<or> (\<exists>k\<in>set ks. deletable L fs cfg k))"
  by (induction ks arbitrary: st) (auto simp: deletable_def)

lemma deletionSweep_hashDB:
  "hashDB (deletionSweep L fs cfg st) =
     filter (\<lambda>kv. \<not> deletable L fs cfg (fst kv)) (hashDB st)"
  unfolding deletionSweep_def sweep_hashDB by (rule filter_cong) auto

lemma deletionSweep_alerts:
  "alerts (deletionSweep L fs cfg st) =
     alerts st @ map DeletedFile (filter (deletable L fs cfg) (map fst (hashDB st)))"
  by (simp add: deletionSweep_def sweep_alerts)

lemma deletionSweep_newAlerts:
  "newAlerts st (deletionSweep L fs cfg st) =
     map DeletedFile (filter (deletable L fs cfg) (map fst (hashDB st)))"
  by (simp add: newAlerts_def deletionSweep_alerts)

lemma map_of_filter_deletable:
  "map_of (filter (\<lambda>kv. \<not> deletable L fs cfg (fst kv)) xs) p =
     (if deletable L fs cfg p then None else map_of xs p)"
  by (induction xs) auto

lemma deletionSweep_map_of:
  "map_of (hashDB (deletionSweep L fs cfg st)) p =
     (if deletable L fs cfg p then None else map_of (hashDB st) p)"
  unfolding deletionSweep_hashDB by (rule map_of_filter_deletable)

lemma alertsFor_Deleted:
  "alertsFor p (map DeletedFile ks) = map DeletedFile (filter (\<lambda>k. k = p) ks)"
  by (induction ks) (auto simp: alertsFor_def)

lemma filter_eq_distinct:
  "distinct ks \<Longrightarrow> filter (\<lambda>k. k = p) ks = (if p \<in> set ks then [p] else [])"
  by (induction ks) auto

lemma deletionSweep_alertsFor:
  assumes "distinct (map fst (hashDB st))"
  shows "alertsFor p (newAlerts st (deletionSweep L fs cfg st)) =
           (if p \<in> fst ` set (hashDB st) \<and> deletable L fs cfg p then [DeletedFile p] else [])"
proof -
  have d: "distinct (filter (deletable L fs cfg) (map fst (hashDB st)))"
    using assms by simp
  show ?thesis
    unfolding deletionSweep_newAlerts alertsFor_Deleted filter_eq_distinct [OF d]
    by auto
qed

text \<open>
  C4. Let a path be in the store when the deletion loop starts, and not exist on disk. If
  no exclusion rule matches it, the loop raises exactly one alert for it, the alert that the
  file was deleted, and removes its entry. If a rule matches it, the loop raises no alert
  for it and its entry stays as it was.
\<close>

theorem deletion_sweep_reports_unexcluded_only:
  assumes "distinct (map fst (hashDB st))"
    and "map_of (hashDB st) p = Some h"
    and "notExist fs p"
  shows "if shouldExclude L p (exclude cfg)
         then alertsFor p (newAlerts st (deletionSweep L fs cfg st)) = [] \<and>
              map_of (hashDB (deletionSweep L fs cfg st)) p = Some h
         else alertsFor p (newAlerts st (deletionSweep L fs cfg st)) = [DeletedFile p] \<and>
              map_of (hashDB (deletionSweep L fs cfg st)) p = None"
proof -
  have "p \<in> fst ` set (hashDB st)"
    using assms(2) by (metis domI dom_map_of_conv_image_fst)
  then show ?thesis
    using assms by (simp add: deletionSweep_alertsFor deletionSweep_map_of deletable_def)
qed

theorem deletion_sweep_reports_unexcluded_only_witness:
  "distinct (map fst (hashDB (exState [(''/a/old'', ''h0''), (''/a/b/old'', ''h1'')]))) \<and>
   map_of (hashDB (exState [(''/a/old'', ''h0''), (''/a/b/old'', ''h1'')])) ''/a/old'' = Some ''h0'' \<and>
   notExist exFS ''/a/old'' \<and>
   \<not> shouldExclude posix ''/a/old'' (exclude exCfg) \<and>
   alertsFor ''/a/old'' (newAlerts (exState [(''/a/old'', ''h0''), (''/a/b/old'', ''h1'')])
      (deletionSweep posix exFS exCfg (exState [(''/a/old'', ''h0''), (''/a/b/old'', ''h1'')])))
     = [DeletedFile ''/a/old''] \<and>
   map_of (hashDB (deletionSweep posix exFS exCfg
      (exState [(''/a/old'', ''h0''), (''/a/b/old'', ''h1'')]))) ''/a/old'' = None"
  using deletion_sweep_reports_unexcluded_only
    [of "exState [(''/a/old'', ''h0''), (''/a/b/old'', ''h1'')]" "''/a/old''" "''h0''"
        exFS posix exCfg]
  by (simp add: exState_def exFS_def exCfg_def notExist_def posix_def
      HasSuffix_def HasPrefix_def TrimSuffix_def suffix_to_prefix Let_def)

section \<open>The traversal\<close>

lemma simulatesD:
  "simulates R f g \<Longrightarrow> R s t \<Longrightarrow> f p a s = (e, s') \<Longrightarrow> g p a t = (e', t') \<Longrightarrow> e = e' \<and> R s' t'"
  unfolding simulates_def by (metis fst_conv snd_conv)

lemma walk_rel:
  shows "simulates R f g \<Longrightarrow> R s t \<Longrightarrow> fst (walk L f path node s) = fst (walk L g path node t) \<and>
           R (snd (walk L f path node s)) (snd (walk L g path node t))"
    and "simulates R f g \<Longrightarrow> R s t \<Longrightarrow> fst (walkNames L f path cs s) = fst (walkNames L g path cs t) \<and>
           R (snd (walkNames L f path cs s)) (snd (walkNames L g path cs t))"
proof (induction L f path node s and L f path cs s arbitrary: t and t rule: walk_walkNames.induct)
  case (1 L fn path s)
  then show ?case by (simp add: simulates_def)
next
  case (2 L fn path r sz s)
  then show ?case by (simp add: simulates_def)
next
  case (3 L fn path s)
  then show ?case by (simp add: simulates_def)
next
  case (4 L fn path cs s)
  obtain e s' where fs: "fn path (Visit (infoOf (Dir cs))) s = (e, s')" by (cases "fn path (Visit (infoOf (Dir cs))) s")
  obtain e' t' where gt: "g path (Visit (infoOf (Dir cs))) t = (e', t')" by (cases "g path (Visit (infoOf (Dir cs))) t")
  have eq: "e = e'" and R': "R s' t'" using simulatesD [OF 4(2) 4(3) fs gt] by auto
  show ?case
  proof (cases e)
    case Nil
    then show ?thesis using 4(1) [OF fs [symmetric] Nil 4(2) R'] fs gt eq by simp
  next
    case SkipDir
    then show ?thesis using fs gt eq R' by simp
  next
    case Err
    then show ?thesis using fs gt eq R' by simp
  qed
next
  case (5 L fn path s)
  then show ?case by simp
next
  case (6 L fn path name node rest s)
  obtain e s' where fs: "walk L fn (Join L path name) node s = (e, s')" by (cases "walk L fn (Join L path name) node s")
  obtain e' t' where gt: "walk L g (Join L path name) node t = (e', t')" by (cases "walk L g (Join L path name) node t")
  have eq: "e = e'" and R': "R s' t'" using 6(1) [OF 6(6) 6(7)] fs gt by auto
  show ?case
  proof (cases e)
    case Nil
    then show ?thesis using 6(2) [OF fs [symmetric] Nil 6(6) R'] fs gt eq by simp
  next
    case SkipDir
    show ?thesis
    proof (cases node)
      case (File r sz)
      then show ?thesis using SkipDir fs gt eq R' by simp
    next
      case NoStat
      then show ?thesis using SkipDir 6(3) [OF fs [symmetric] SkipDir NoStat 6(6) R'] fs gt eq by simp
    next
      case (Dir ds)
      then show ?thesis using SkipDir 6(4) [OF fs [symmetric] SkipDir Dir 6(6) R'] fs gt eq by simp
    next
      case DirErr
      then show ?thesis using SkipDir 6(5) [OF fs [symmetric] SkipDir DirErr 6(6) R'] fs gt eq by simp
    qed
  next
    case Err
    then show ?thesis using fs gt eq R' by simp
  qed
qed

lemma Walk_rel:
  assumes "simulates R f g" and "R s t"
  shows "fst (Walk L f root node s) = fst (Walk L g root node t) \<and>
         R (snd (Walk L f root node s)) (snd (Walk L g root node t))"
proof -
  obtain e s' where fs: "walk L f root node s = (e, s')" by (cases "walk L f root node s")
  obtain e' t' where gt: "walk L g root node t = (e', t')" by (cases "walk L g root node t")
  have "e = e'" "R s' t'" using walk_rel(1) [OF assms, of L root node] fs gt by auto
  then show ?thesis by (cases e) (simp_all add: Walk_def fs gt)
qed

lemma Walk_visits:
  assumes "\<And>p a s. fst (f p a s) = ctl p a"
  shows "snd (Walk L f root node s) = foldl (\<lambda>s (p, a). snd (f p a s)) s (visits L ctl root node)"
proof -
  let ?R = "\<lambda>s' t. s' = foldl (\<lambda>s (p, a). snd (f p a s)) s t"
  have "simulates ?R f (tracing ctl)"
    by (simp add: simulates_def tracing_def assms)
  from Walk_rel [OF this, of s "[]" L root node] show ?thesis
    by (simp add: visits_def)
qed

lemma fst_checkFile: "fst (checkFile L fs cfg dir path arg st) = checkDecision L cfg dir path arg"
  by (simp add: checkFile_def checkDecision_def split: walkArg.splits option.splits)

lemma snd_checkFile:
  "snd (checkFile L fs cfg dir path arg st) =
     foldl (compareHash fs) st (candidates L cfg dir (path, arg))"
  by (simp add: checkFile_def candidates_def eligible_def compareHash_def
      split: walkArg.splits option.splits)

lemma foldl_concat_map:
  "foldl g s (concat (map f xs)) = foldl (\<lambda>s x. foldl g s (f x)) s xs"
  by (induction xs arbitrary: s) simp_all

lemma Walk_checkFile:
  "snd (Walk L (checkFile L fs cfg dir) root node st) =
     foldl (compareHash fs) st
       (concat (map (candidates L cfg dir) (visits L (checkDecision L cfg dir) root node)))"
proof -
  have "snd (Walk L (checkFile L fs cfg dir) root node st) =
          foldl (\<lambda>s (p, a). snd (checkFile L fs cfg dir p a s)) st
            (visits L (checkDecision L cfg dir) root node)"
    by (rule Walk_visits) (rule fst_checkFile)
  also have "(\<lambda>s (p, a). snd (checkFile L fs cfg dir p a s)) =
             (\<lambda>s x. foldl (compareHash fs) s (candidates L cfg dir x))"
    by (intro ext) (simp add: snd_checkFile split: prod.splits)
  finally show ?thesis by (simp add: foldl_concat_map)
qed

lemma walkDirs_checkFile:
  "walkDirs L fs (checkFile L fs cfg) (monitorDirs cfg) st =
     foldl (compareHash fs) st (fingerprinted L fs cfg)"
  by (simp add: walkDirs_def fingerprinted_def foldl_concat_map Walk_checkFile)

text \<open>
  On a tree without errors the walk hands over exactly the entries outside the pruned
  directories, in order.
\<close>

lemma walk_error_free:
  "errorFree node \<Longrightarrow>
     walk L (tracing (pruning prune)) path node t =
       (if IsDir (infoOf node) \<and> prune path then SkipDir else Nil,
        t @ map (\<lambda>e. (fst e, Visit (snd e))) (below L prune path node))"
  "errorFreeNames cs \<Longrightarrow>
     walkNames L (tracing (pruning prune)) path cs t =
       (Nil, t @ map (\<lambda>e. (fst e, Visit (snd e))) (belowNames L prune path cs))"
proof (induction L prune path node and L prune path cs arbitrary: t and t
    rule: below_belowNames.induct)
  case (1 L prune path)
  then show ?case by simp
next
  case (2 L prune path)
  then show ?case by simp
next
  case (3 L prune path r sz)
  then show ?case by (simp add: tracing_def pruning_def)
next
  case (4 L prune path cs)
  show ?case
  proof (cases "prune path")
    case True
    then show ?thesis by (simp add: tracing_def pruning_def)
  next
    case False
    then show ?thesis using 4 by (simp add: tracing_def pruning_def)
  qed
next
  case (5 L prune path)
  then show ?case by simp
next
  case (6 L prune path name node rest)
  then have n: "errorFree node" and r: "errorFreeNames rest" by simp_all
  show ?case
    using 6(1) [OF n, of t] 6(2) [OF r] by (cases node) (simp_all split: if_splits)
qed

lemma visits_error_free:
  "errorFree node \<Longrightarrow>
     visits L (pruning prune) root node = map (\<lambda>e. (fst e, Visit (snd e))) (below L prune root node)"
  by (simp add: visits_def Walk_def walk_error_free)

lemma checkDecision_pruning: "checkDecision L cfg dir = pruning (checkPrune L cfg dir)"
  by (intro ext) (auto simp: checkDecision_def pruning_def checkPrune_def split: walkArg.splits)

lemma initDecision_pruning: "initDecision = pruning (\<lambda>p. False)"
  by (intro ext) (auto simp: initDecision_def pruning_def split: walkArg.splits)



section \<open>The walk of the example\<close>

lemma ex_visits:
  "visits posix (checkDecision posix exCfg ''/a'') ''/a'' exTree =
     [(''/a'', Visit (infoOf exTree)),
      (''/a/b'', Visit \<lparr>IsDir = True, IsRegular = False, Size = 0\<rparr>),
      (''/a/b/f'', Visit \<lparr>IsDir = False, IsRegular = True, Size = 5\<rparr>),
      (''/a/big'', Visit \<lparr>IsDir = False, IsRegular = True, Size = 20000000\<rparr>),
      (''/a/link'', Visit \<lparr>IsDir = False, IsRegular = False, Size = 9\<rparr>),
      (''/a/locked'', Visit \<lparr>IsDir = False, IsRegular = True, Size = 7\<rparr>),
      (''/a/x'', Visit \<lparr>IsDir = False, IsRegular = True, Size = 3\<rparr>)]"
  by (simp add: visits_def Walk_def exTree_def tracing_def checkDecision_def posix_def unixJoin_def
      exCfg_def HasSuffix_def HasPrefix_def TrimSuffix_def suffix_to_prefix Let_def)

lemma ex_fingerprinted:
  "fingerprinted posix exFS exCfg =
     [(''/a/locked'', \<lparr>IsDir = False, IsRegular = True, Size = 7\<rparr>),
      (''/a/x'', \<lparr>IsDir = False, IsRegular = True, Size = 3\<rparr>)]"
proof -
  have t: "tree exFS ''/a'' = exTree" by (simp add: exFS_def)
  show ?thesis
    unfolding fingerprinted_def
    by (simp add: exCfg_def [THEN arg_cong [where f = monitorDirs]] t ex_visits)
       (simp add: candidates_def eligible_def exCfg_def posix_def exTree_def
          HasSuffix_def HasPrefix_def TrimSuffix_def suffix_to_prefix Let_def)
qed

lemma ex_tree: "tree exFS ''/a'' = exTree"
  by (simp add: exFS_def)

lemma ex_pstate:
  "pstate exFS ''/a/x'' = Content ''h2''"
  "pstate exFS ''/a/b/f'' = Content ''hf''"
  "pstate exFS ''/a/big'' = Content ''hb''"
  "pstate exFS ''/a/locked'' = Unreadable"
  "pstate exFS ''/a/b'' = Unreadable"
  "pstate exFS ''/a/link'' = Gone"
  by (simp_all add: exFS_def)



lemma ex_init_visits:
  "visits posix initDecision ''/a'' exTree =
     [(''/a'', Visit (infoOf exTree)),
      (''/a/b'', Visit \<lparr>IsDir = True, IsRegular = False, Size = 0\<rparr>),
      (''/a/b/f'', Visit \<lparr>IsDir = False, IsRegular = True, Size = 5\<rparr>),
      (''/a/big'', Visit \<lparr>IsDir = False, IsRegular = True, Size = 20000000\<rparr>),
      (''/a/link'', Visit \<lparr>IsDir = False, IsRegular = False, Size = 9\<rparr>),
      (''/a/locked'', Visit \<lparr>IsDir = False, IsRegular = True, Size = 7\<rparr>),
      (''/a/x'', Visit \<lparr>IsDir = False, IsRegular = True, Size = 3\<rparr>)]"
  by (simp add: visits_def Walk_def exTree_def tracing_def initDecision_def posix_def unixJoin_def)

lemma ex_baselined:
  "baselined posix exFS exCfg = [''/a/b/f'', ''/a/big'', ''/a/link'', ''/a/locked'', ''/a/x'']"
  unfolding baselined_def
  by (simp add: exCfg_def [THEN arg_cong [where f = monitorDirs]] ex_tree ex_init_visits)
     (simp add: nonDirs_def exTree_def)

section \<open>Comparing fingerprints\<close>

lemma alertsFor_append: "alertsFor P (a @ b) = alertsFor P a @ alertsFor P b"
  by (simp add: alertsFor_def)

lemma newAlerts_append: "alerts st' = alerts st @ es \<Longrightarrow> newAlerts st st' = es"
  by (simp add: newAlerts_def)

lemma compareHash_other:
  "fst v \<noteq> P \<Longrightarrow> map_of (hashDB (compareHash fs s v)) P = map_of (hashDB s) P \<and>
     alertsFor P (alerts (compareHash fs s v)) = alertsFor P (alerts s)"
  by (simp add: compareHash_def update_conv' alertsFor_def split: option.splits)

lemma compareHash_settled:
  "calculateFileHash fs (fst v) = None \<or> map_of (hashDB s) (fst v) = calculateFileHash fs (fst v)
     \<Longrightarrow> compareHash fs s v = s"
  by (auto simp: compareHash_def split: option.splits)

lemma compareHash_sets:
  "calculateFileHash fs (fst v) = Some h \<Longrightarrow> map_of (hashDB (compareHash fs s v)) (fst v) = Some h"
  by (simp add: compareHash_def update_conv' split: option.splits)

lemma compareHash_modified:
  "map_of (hashDB s) (fst v) = Some H1 \<Longrightarrow> calculateFileHash fs (fst v) = Some H2 \<Longrightarrow> H1 \<noteq> H2 \<Longrightarrow>
     alerts (compareHash fs s v) = alerts s @ [ModifiedFile (fst v) (Size (snd v)) H1 H2]"
  by (simp add: compareHash_def)

lemma compareHash_alerts: "\<exists>es. alerts (compareHash fs s v) = alerts s @ es"
  by (simp add: compareHash_def split: option.splits)

lemma fold_alerts: "\<exists>es. alerts (foldl (compareHash fs) s xs) = alerts s @ es"
proof (induction xs arbitrary: s)
  case Nil
  then show ?case by simp
next
  case (Cons v xs)
  obtain e1 where "alerts (compareHash fs s v) = alerts s @ e1"
    using compareHash_alerts by blast
  moreover obtain e2 where
    "alerts (foldl (compareHash fs) (compareHash fs s v) xs) = alerts (compareHash fs s v) @ e2"
    using Cons.IH by blast
  ultimately show ?case by simp
qed

lemma fold_other:
  "P \<notin> fst ` set xs \<Longrightarrow>
     map_of (hashDB (foldl (compareHash fs) s xs)) P = map_of (hashDB s) P \<and>
     alertsFor P (alerts (foldl (compareHash fs) s xs)) = alertsFor P (alerts s)"
proof (induction xs arbitrary: s)
  case Nil
  then show ?case by simp
next
  case (Cons v xs)
  then have "fst v \<noteq> P" "P \<notin> fst ` set xs" by auto
  then show ?case using Cons.IH [of "compareHash fs s v"] by (simp add: compareHash_other)
qed

lemma fold_settled:
  "calculateFileHash fs P = None \<or> map_of (hashDB s) P = calculateFileHash fs P \<Longrightarrow>
     map_of (hashDB (foldl (compareHash fs) s xs)) P = map_of (hashDB s) P \<and>
     alertsFor P (alerts (foldl (compareHash fs) s xs)) = alertsFor P (alerts s)"
proof (induction xs arbitrary: s)
  case Nil
  then show ?case by simp
next
  case (Cons v xs)
  show ?case
  proof (cases "fst v = P")
    case True
    then have "compareHash fs s v = s" using Cons.prems by (simp add: compareHash_settled)
    then show ?thesis using Cons by simp
  next
    case False
    then show ?thesis using Cons.IH [of "compareHash fs s v"] Cons.prems
      by (simp add: compareHash_other)
  qed
qed

lemma fold_modified:
  "map_of (hashDB s) P = Some H1 \<Longrightarrow> calculateFileHash fs P = Some H2 \<Longrightarrow> H1 \<noteq> H2 \<Longrightarrow>
   P \<in> fst ` set xs \<Longrightarrow>
     \<exists>info. (P, info) \<in> set xs \<and>
       map_of (hashDB (foldl (compareHash fs) s xs)) P = Some H2 \<and>
       alertsFor P (alerts (foldl (compareHash fs) s xs)) =
         alertsFor P (alerts s) @ [ModifiedFile P (Size info) H1 H2]"
proof (induction xs arbitrary: s)
  case Nil
  then show ?case by simp
next
  case (Cons v xs)
  show ?case
  proof (cases "fst v = P")
    case True
    let ?s = "compareHash fs s v"
    have m: "map_of (hashDB ?s) P = Some H2"
      using True Cons.prems(2) compareHash_sets by metis
    have a: "alerts ?s = alerts s @ [ModifiedFile P (Size (snd v)) H1 H2]"
      using True Cons.prems compareHash_modified by metis
    have "map_of (hashDB (foldl (compareHash fs) ?s xs)) P = map_of (hashDB ?s) P \<and>
          alertsFor P (alerts (foldl (compareHash fs) ?s xs)) = alertsFor P (alerts ?s)"
      by (rule fold_settled) (simp add: m Cons.prems)
    moreover have "(P, snd v) \<in> set (v # xs)" using True by (cases v) auto
    ultimately show ?thesis using m a
      by (auto simp: alertsFor_append alertsFor_def)
  next
    case False
    then have "P \<in> fst ` set xs" using Cons.prems(4) by auto
    moreover have "map_of (hashDB (compareHash fs s v)) P = Some H1"
      using False Cons.prems(1) by (simp add: compareHash_other)
    ultimately obtain info where "(P, info) \<in> set xs"
      "map_of (hashDB (foldl (compareHash fs) (compareHash fs s v) xs)) P = Some H2"
      "alertsFor P (alerts (foldl (compareHash fs) (compareHash fs s v) xs)) =
         alertsFor P (alerts (compareHash fs s v)) @ [ModifiedFile P (Size info) H1 H2]"
      using Cons.IH [of "compareHash fs s v"] Cons.prems by blast
    then show ?thesis using False by (auto simp: compareHash_other)
  qed
qed

lemma fold_establishes:
  "\<forall>v\<in>set xs. calculateFileHash fs (fst v) = None \<or>
      map_of (hashDB (foldl (compareHash fs) s xs)) (fst v) = calculateFileHash fs (fst v)"
proof (induction xs rule: rev_induct)
  case Nil
  then show ?case by simp
next
  case (snoc v xs)
  let ?s = "foldl (compareHash fs) s xs"
  have last: "calculateFileHash fs (fst v) = None \<or>
      map_of (hashDB (compareHash fs ?s v)) (fst v) = calculateFileHash fs (fst v)"
    using compareHash_sets by (cases "calculateFileHash fs (fst v)") auto
  have "calculateFileHash fs (fst u) = None \<or>
      map_of (hashDB (compareHash fs ?s v)) (fst u) = calculateFileHash fs (fst u)"
    if "u \<in> set xs" for u
  proof (cases "fst u = fst v")
    case True
    then show ?thesis using last by simp
  next
    case False
    then show ?thesis using snoc that compareHash_other [of v "fst u" fs ?s] by auto
  qed
  then show ?case using last by auto
qed

lemma fold_noop:
  "\<forall>v\<in>set xs. calculateFileHash fs (fst v) = None \<or>
      map_of (hashDB s) (fst v) = calculateFileHash fs (fst v) \<Longrightarrow>
   foldl (compareHash fs) s xs = s"
  by (induction xs) (simp_all add: compareHash_settled)

lemma sweep_noop: "\<forall>k\<in>set ks. \<not> deletable L fs cfg k \<Longrightarrow> sweep L fs cfg ks st = st"
  by (induction ks arbitrary: st) (auto simp: deletable_def)

section \<open>A whole check\<close>

lemma checkFiles_hashDB:
  "hashDB (checkFiles L fs cfg st) = hashDB (deletionSweep L fs cfg (walked L fs cfg st))"
  by (simp add: checkFiles_def Let_def walkDirs_checkFile saveHashDB_def walked_def)

lemma checkFiles_alerts:
  "alerts (checkFiles L fs cfg st) = alerts (deletionSweep L fs cfg (walked L fs cfg st))"
  by (simp add: checkFiles_def Let_def walkDirs_checkFile saveHashDB_def walked_def)

lemma walked_alerts: "\<exists>es. alerts (walked L fs cfg st) = alerts st @ es"
  using fold_alerts [of fs "st\<lparr>changesDetected := False\<rparr>"] by (simp add: walked_def)

lemma checkFiles_alerts_grow: "\<exists>es. alerts (checkFiles L fs cfg st) = alerts st @ es"
  using walked_alerts [of L fs cfg st] by (auto simp: checkFiles_alerts deletionSweep_alerts)

lemma alertsFor_new:
  assumes "\<exists>es. alerts st' = alerts st @ es"
    and "alertsFor P (alerts st') = alertsFor P (alerts st) @ X"
  shows "alertsFor P (newAlerts st st') = X"
proof -
  obtain es where es: "alerts st' = alerts st @ es" using assms(1) by blast
  then have "newAlerts st st' = es" by (rule newAlerts_append)
  then show ?thesis using assms(2) es by (simp add: alertsFor_append)
qed

lemma checkFiles_kept:
  assumes "\<not> deletable L fs cfg P"
  shows "map_of (hashDB (checkFiles L fs cfg st)) P = map_of (hashDB (walked L fs cfg st)) P"
    and "alertsFor P (alerts (checkFiles L fs cfg st)) = alertsFor P (alerts (walked L fs cfg st))"
proof -
  show "map_of (hashDB (checkFiles L fs cfg st)) P = map_of (hashDB (walked L fs cfg st)) P"
    using assms by (simp add: checkFiles_hashDB deletionSweep_map_of)
  have "filter (\<lambda>k. k = P) (filter (deletable L fs cfg) ks) = []" for ks
    using assms by (induction ks) auto
  then show "alertsFor P (alerts (checkFiles L fs cfg st)) = alertsFor P (alerts (walked L fs cfg st))"
    by (simp add: checkFiles_alerts deletionSweep_alerts alertsFor_append alertsFor_Deleted)
qed

lemma content_kept: "calculateFileHash fs P = Some h \<Longrightarrow> \<not> deletable L fs cfg P"
  by (auto simp: calculateFileHash_def deletable_def notExist_def split: pstate.splits)

lemma compared_file_modified:
  assumes "map_of (hashDB st) P = Some H1"
    and "calculateFileHash fs P = Some H2"
    and "P \<in> fst ` set (fingerprinted L fs cfg)"
  shows "if H1 = H2
         then alertsFor P (newAlerts st (checkFiles L fs cfg st)) = [] \<and>
              map_of (hashDB (checkFiles L fs cfg st)) P = Some H1
         else (\<exists>info. (P, info) \<in> set (fingerprinted L fs cfg) \<and>
                 alertsFor P (newAlerts st (checkFiles L fs cfg st)) =
                   [ModifiedFile P (Size info) H1 H2]) \<and>
              map_of (hashDB (checkFiles L fs cfg st)) P = Some H2"
proof -
  let ?s = "st\<lparr>changesDetected := False\<rparr>"
  have keep: "\<not> deletable L fs cfg P" using assms(2) by (rule content_kept)
  note k = checkFiles_kept [OF keep, of st]
  show ?thesis
  proof (cases "H1 = H2")
    case True
    have "map_of (hashDB (walked L fs cfg st)) P = map_of (hashDB ?s) P \<and>
          alertsFor P (alerts (walked L fs cfg st)) = alertsFor P (alerts ?s)"
      unfolding walked_def by (rule fold_settled) (simp add: assms True)
    then have "map_of (hashDB (checkFiles L fs cfg st)) P = Some H1"
      and "alertsFor P (alerts (checkFiles L fs cfg st)) = alertsFor P (alerts st) @ []"
      using k assms(1) by simp_all
    then show ?thesis using True alertsFor_new [OF checkFiles_alerts_grow] by simp
  next
    case False
    obtain info where i: "(P, info) \<in> set (fingerprinted L fs cfg)"
      and m: "map_of (hashDB (walked L fs cfg st)) P = Some H2"
      and a: "alertsFor P (alerts (walked L fs cfg st)) =
                alertsFor P (alerts ?s) @ [ModifiedFile P (Size info) H1 H2]"
      using fold_modified [of ?s P H1 fs H2 "fingerprinted L fs cfg"] assms False
      unfolding walked_def by auto
    have "alertsFor P (newAlerts st (checkFiles L fs cfg st)) = [ModifiedFile P (Size info) H1 H2]"
      by (rule alertsFor_new [OF checkFiles_alerts_grow]) (simp add: k a)
    then show ?thesis using False i m k by auto
  qed
qed

lemma reached_fingerprinted:
  assumes "dir \<in> set (monitorDirs cfg)"
    and "(P, Visit info) \<in> set (visits L (checkDecision L cfg dir) dir (tree fs dir))"
    and "eligible L cfg dir P info"
  shows "(P, info) \<in> set (fingerprinted L fs cfg)"
proof -
  have "(P, info) \<in> set (candidates L cfg dir (P, Visit info))"
    using assms(3) by (simp add: candidates_def)
  then show ?thesis
    unfolding fingerprinted_def using assms(1,2) by auto
qed

lemma error_free_reached:
  assumes "errorFree (tree fs dir)"
    and "(P, info) \<in> set (below L (checkPrune L cfg dir) dir (tree fs dir))"
  shows "(P, Visit info) \<in> set (visits L (checkDecision L cfg dir) dir (tree fs dir))"
  using assms by (force simp: checkDecision_pruning visits_error_free)

text \<open>
  C7, as the code has it. Let the walk of a monitored root hand the path \<open>P\<close> to the
  function literal of \<open>checkFiles\<close> as a regular file within the size limit (the walk goes
  through the tree of the root in order, enters no excluded directory and stops at the
  first failure of \<open>Lstat\<close> or of a directory listing), let \<open>P\<close> not be the root and not
  be excluded, let the store hold the fingerprint \<open>H1\<close> for \<open>P\<close>, and let the content of
  \<open>P\<close> hash to \<open>H2\<close>. If \<open>H1\<close> and \<open>H2\<close> differ, the check raises exactly one alert for
  \<open>P\<close>, that the file was modified, with \<open>H1\<close> as the old and \<open>H2\<close> as the new
  fingerprint, and the store holds \<open>H2\<close> for \<open>P\<close> afterwards. If they are equal, the check
  raises no alert for \<open>P\<close> and the entry stays.
\<close>

theorem modification_detected:
  assumes "dir \<in> set (monitorDirs cfg)"
    and "(P, Visit info) \<in> set (visits L (checkDecision L cfg dir) dir (tree fs dir))"
    and "P \<noteq> dir"
    and "\<not> shouldExclude L P (exclude cfg)"
    and "IsRegular info"
    and "\<not> (0 < MaxFileSize cfg \<and> MaxFileSize cfg < Size info)"
    and "map_of (hashDB st) P = Some H1"
    and "calculateFileHash fs P = Some H2"
  shows "if H1 = H2
         then alertsFor P (newAlerts st (checkFiles L fs cfg st)) = [] \<and>
              map_of (hashDB (checkFiles L fs cfg st)) P = Some H1
         else (\<exists>i. (P, i) \<in> set (fingerprinted L fs cfg) \<and>
                 alertsFor P (newAlerts st (checkFiles L fs cfg st)) =
                   [ModifiedFile P (Size i) H1 H2]) \<and>
              map_of (hashDB (checkFiles L fs cfg st)) P = Some H2"
proof -
  have "eligible L cfg dir P info"
    using assms(3-6) by (simp add: eligible_def)
  then have "(P, info) \<in> set (fingerprinted L fs cfg)"
    using assms(1,2) by (rule reached_fingerprinted [rotated 2])
  then have "P \<in> fst ` set (fingerprinted L fs cfg)" by force
  then show ?thesis
    using assms(7,8) by (rule compared_file_modified [rotated 2])
qed

theorem modification_detected_witness:
  "''/a'' \<in> set (monitorDirs exCfg) \<and>
   (''/a/x'', Visit \<lparr>IsDir = False, IsRegular = True, Size = 3\<rparr>)
     \<in> set (visits posix (checkDecision posix exCfg ''/a'') ''/a'' (tree exFS ''/a'')) \<and>
   ''/a/x'' \<noteq> ''/a'' \<and>
   \<not> shouldExclude posix ''/a/x'' (exclude exCfg) \<and>
   \<not> (0 < MaxFileSize exCfg \<and> MaxFileSize exCfg < 3) \<and>
   map_of (hashDB (exState [(''/a/x'', ''h1'')])) ''/a/x'' = Some ''h1'' \<and>
   calculateFileHash exFS ''/a/x'' = Some ''h2'' \<and>
   alertsFor ''/a/x'' (newAlerts (exState [(''/a/x'', ''h1'')])
       (checkFiles posix exFS exCfg (exState [(''/a/x'', ''h1'')])))
     = [ModifiedFile ''/a/x'' 3 ''h1'' ''h2''] \<and>
   map_of (hashDB (checkFiles posix exFS exCfg (exState [(''/a/x'', ''h1'')]))) ''/a/x'' = Some ''h2''"
proof -
  have c: "''/a'' \<in> set (monitorDirs exCfg)"
    "\<not> shouldExclude posix ''/a/x'' (exclude exCfg)"
    "\<not> (0 < MaxFileSize exCfg \<and> MaxFileSize exCfg < 3)"
    by (simp_all add: exCfg_def posix_def HasSuffix_def HasPrefix_def TrimSuffix_def
        suffix_to_prefix Let_def)
  have v: "(''/a/x'', Visit \<lparr>IsDir = False, IsRegular = True, Size = 3\<rparr>)
     \<in> set (visits posix (checkDecision posix exCfg ''/a'') ''/a'' (tree exFS ''/a''))"
    by (simp add: ex_tree ex_visits)
  have m: "map_of (hashDB (exState [(''/a/x'', ''h1'')])) ''/a/x'' = Some ''h1''"
    by (simp add: exState_def)
  have h: "calculateFileHash exFS ''/a/x'' = Some ''h2''"
    by (simp add: calculateFileHash_def ex_pstate)
  show ?thesis
    using c v m h
      modification_detected [of "''/a''" exCfg "''/a/x''"
        "\<lparr>IsDir = False, IsRegular = True, Size = 3\<rparr>" posix exFS
        "exState [(''/a/x'', ''h1'')]" "''h1''" "''h2''"]
    by (simp add: ex_fingerprinted)
qed

text \<open>
  The walk hands \<open>P\<close> over, in particular, when the tree of the root has no error and
  \<open>P\<close> lies in it outside the excluded directories.
\<close>

lemma modification_detected_error_free:
  assumes "dir \<in> set (monitorDirs cfg)"
    and "errorFree (tree fs dir)"
    and "(P, info) \<in> set (below L (checkPrune L cfg dir) dir (tree fs dir))"
    and "P \<noteq> dir"
    and "\<not> shouldExclude L P (exclude cfg)"
    and "IsRegular info"
    and "\<not> (0 < MaxFileSize cfg \<and> MaxFileSize cfg < Size info)"
    and "map_of (hashDB st) P = Some H1"
    and "calculateFileHash fs P = Some H2"
    and "H1 \<noteq> H2"
  shows "\<exists>sz. alertsFor P (newAlerts st (checkFiles L fs cfg st)) = [ModifiedFile P sz H1 H2] \<and>
              map_of (hashDB (checkFiles L fs cfg st)) P = Some H2"
proof -
  have "eligible L cfg dir P info"
    using assms(4-7) by (simp add: eligible_def)
  then have "(P, info) \<in> set (fingerprinted L fs cfg)"
    using assms(1) error_free_reached [OF assms(2,3)] by (rule reached_fingerprinted [rotated 2])
  then have r: "P \<in> fst ` set (fingerprinted L fs cfg)" by force
  have "(\<exists>i. (P, i) \<in> set (fingerprinted L fs cfg) \<and>
           alertsFor P (newAlerts st (checkFiles L fs cfg st)) = [ModifiedFile P (Size i) H1 H2]) \<and>
        map_of (hashDB (checkFiles L fs cfg st)) P = Some H2"
    using compared_file_modified [OF assms(8,9) r] assms(10) by simp
  then show ?thesis by blast
qed

lemma ab_fingerprinted: "fingerprinted posix abFS exCfg = []"
  by (simp add: fingerprinted_def exCfg_def abFS_def visits_def Walk_def tracing_def
      checkDecision_def candidates_def eligible_def posix_def unixJoin_def)

text \<open>
  C7, as it is worded, fails when the walk does not reach the file: the listing of the
  directory \<open>/a/aaa\<close> fails, the function literal returns that error, and the walk of the
  root \<open>/a\<close> ends before \<open>/a/x\<close>. The file is in the store with \<open>h1\<close>, is not excluded,
  is within the size limit and hashes to \<open>h2\<close>; the check raises no alert and the store
  keeps \<open>h1\<close>.
\<close>

theorem unreadable_directory_hides_modification:
  "tree abFS ''/a'' = Dir [(''aaa'', DirErr), (''x'', File True 3)] \<and>
   \<not> shouldExclude posix ''/a/x'' (exclude exCfg) \<and>
   \<not> (0 < MaxFileSize exCfg \<and> MaxFileSize exCfg < 3) \<and>
   map_of (hashDB (exState [(''/a/x'', ''h1'')])) ''/a/x'' = Some ''h1'' \<and>
   calculateFileHash abFS ''/a/x'' = Some ''h2'' \<and>
   alerts (checkFiles posix abFS exCfg (exState [(''/a/x'', ''h1'')])) = [] \<and>
   map_of (hashDB (checkFiles posix abFS exCfg (exState [(''/a/x'', ''h1'')]))) ''/a/x'' = Some ''h1''"
proof -
  have p: "pstate abFS ''/a/x'' = Content ''h2''" by (simp add: abFS_def)
  have w: "walked posix abFS exCfg (exState [(''/a/x'', ''h1'')]) =
      (exState [(''/a/x'', ''h1'')])\<lparr>changesDetected := False\<rparr>"
    by (simp add: walked_def ab_fingerprinted)
  have d: "\<not> deletable posix abFS exCfg ''/a/x''"
    by (simp add: deletable_def notExist_def p)
  have c: "\<not> shouldExclude posix ''/a/x'' (exclude exCfg)"
    "\<not> (0 < MaxFileSize exCfg \<and> MaxFileSize exCfg < 3)"
    by (simp_all add: exCfg_def posix_def HasSuffix_def HasPrefix_def TrimSuffix_def
        suffix_to_prefix Let_def)
  have t: "tree abFS ''/a'' = Dir [(''aaa'', DirErr), (''x'', File True 3)]"
    by (simp add: abFS_def)
  show ?thesis
    using d c t
    by (simp add: checkFiles_alerts checkFiles_hashDB deletionSweep_alerts deletionSweep_hashDB
        w [unfolded exState_def] calculateFileHash_def p exState_def)
qed

lemma filter_key_update:
  "filter (\<lambda>kv. fst kv = Q) (AList.update k h db) =
     (if k = Q then AList.update Q h (filter (\<lambda>kv. fst kv = Q) db)
      else filter (\<lambda>kv. fst kv = Q) db)"
  by (induction db) auto

lemma map_of_filter_key: "map_of (filter (\<lambda>kv. fst kv = Q) db) Q = map_of db Q"
  by (induction db) auto

lemma map_of_entriesOf: "map_of (hashDB s) Q = map_of (entriesOf Q s) Q"
  by (simp add: entriesOf_def map_of_filter_key)

lemma compareHash_frame:
  assumes "calculateFileHash fs' Q = calculateFileHash fs Q"
    and "entriesOf Q s' = entriesOf Q s"
    and "alertsFor Q (alerts s') = alertsFor Q (alerts s)"
  shows "entriesOf Q (compareHash fs' s' v) = entriesOf Q (compareHash fs s v) \<and>
         alertsFor Q (alerts (compareHash fs' s' v)) = alertsFor Q (alerts (compareHash fs s v))"
proof (cases "fst v = Q")
  case True
  have m: "map_of (hashDB s') Q = map_of (hashDB s) Q"
    using assms(2) by (simp add: map_of_entriesOf)
  show ?thesis
    using True assms m
    by (auto simp: compareHash_def entriesOf_def filter_key_update alertsFor_def
        split: option.splits)
next
  case False
  then show ?thesis
    using assms
    by (auto simp: compareHash_def entriesOf_def filter_key_update alertsFor_def
        split: option.splits)
qed

lemma fold_frame:
  assumes "calculateFileHash fs' Q = calculateFileHash fs Q"
  shows "entriesOf Q s' = entriesOf Q s \<Longrightarrow> alertsFor Q (alerts s') = alertsFor Q (alerts s) \<Longrightarrow>
     entriesOf Q (foldl (compareHash fs') s' xs) = entriesOf Q (foldl (compareHash fs) s xs) \<and>
     alertsFor Q (alerts (foldl (compareHash fs') s' xs)) =
       alertsFor Q (alerts (foldl (compareHash fs) s xs))"
proof (induction xs arbitrary: s s')
  case Nil
  then show ?case by simp
next
  case (Cons v xs)
  have "entriesOf Q (compareHash fs' s' v) = entriesOf Q (compareHash fs s v) \<and>
        alertsFor Q (alerts (compareHash fs' s' v)) = alertsFor Q (alerts (compareHash fs s v))"
    using assms Cons.prems by (rule compareHash_frame)
  then show ?case using Cons.IH by simp
qed

lemma check_frame:
  assumes "tree fs' = tree fs" and "pstate fs' Q = pstate fs Q"
  shows "alertsFor Q (newAlerts st (checkFiles L fs' cfg st)) =
           alertsFor Q (newAlerts st (checkFiles L fs cfg st)) \<and>
         map_of (hashDB (checkFiles L fs' cfg st)) Q = map_of (hashDB (checkFiles L fs cfg st)) Q"
proof -
  have f: "fingerprinted L fs' cfg = fingerprinted L fs cfg"
    by (simp add: fingerprinted_def assms(1))
  have h: "calculateFileHash fs' Q = calculateFileHash fs Q"
    by (simp add: calculateFileHash_def assms(2))
  have d: "deletable L fs' cfg Q = deletable L fs cfg Q"
    by (simp add: deletable_def notExist_def assms(2))
  have w: "entriesOf Q (walked L fs' cfg st) = entriesOf Q (walked L fs cfg st) \<and>
        alertsFor Q (alerts (walked L fs' cfg st)) = alertsFor Q (alerts (walked L fs cfg st))"
    unfolding walked_def f using h by (rule fold_frame) simp_all
  have k: "filter (\<lambda>k. k = Q) (map fst (hashDB s)) = map fst (entriesOf Q s)" for s
    by (simp add: entriesOf_def filter_map comp_def)
  have del: "alertsFor Q (map DeletedFile (filter (deletable L fs'' cfg) (map fst (hashDB s)))) =
      (if deletable L fs'' cfg Q then map DeletedFile (map fst (entriesOf Q s)) else [])" for fs'' s
  proof -
    have "filter (\<lambda>k. k = Q) (filter (deletable L fs'' cfg) ks) =
        (if deletable L fs'' cfg Q then filter (\<lambda>k. k = Q) ks else [])" for ks
      by (induction ks) auto
    then show ?thesis by (simp add: alertsFor_Deleted k)
  qed
  have a: "alertsFor Q (alerts (checkFiles L fs' cfg st)) = alertsFor Q (alerts (checkFiles L fs cfg st))"
    using w d by (simp add: checkFiles_alerts deletionSweep_alerts alertsFor_append del)
  obtain e1 where e1: "alerts (checkFiles L fs cfg st) = alerts st @ e1"
    using checkFiles_alerts_grow by blast
  obtain e2 where e2: "alerts (checkFiles L fs' cfg st) = alerts st @ e2"
    using checkFiles_alerts_grow by blast
  have "alertsFor Q (newAlerts st (checkFiles L fs' cfg st)) =
        alertsFor Q (newAlerts st (checkFiles L fs cfg st))"
    using a e1 e2 by (simp add: newAlerts_def alertsFor_append)
  moreover have "map_of (hashDB (checkFiles L fs' cfg st)) Q = map_of (hashDB (checkFiles L fs cfg st)) Q"
  proof -
    have "map_of (hashDB (walked L fs' cfg st)) Q = map_of (hashDB (walked L fs cfg st)) Q"
      using w by (simp add: map_of_entriesOf)
    then show ?thesis using d by (simp add: checkFiles_hashDB deletionSweep_map_of)
  qed
  ultimately show ?thesis by simp
qed

text \<open>
  C8, as the code has it. Let the content of \<open>P\<close> be unreadable while \<open>os.Stat\<close> does
  not report that \<open>P\<close> is missing. Then a check raises no alert for \<open>P\<close> (new, modified or
  deleted) and leaves the entry of \<open>P\<close> in the store as it was; the function literal,
  called on \<open>P\<close> as a non-directory, returns \<open>nil\<close> and leaves the state as it was; and
  the check handles every path as it does on any file system with the same trees and the
  same state of that path, whether \<open>P\<close> can be read there or not.
\<close>

theorem unreadable_file_untouched:
  assumes "calculateFileHash fs P = None" and "\<not> notExist fs P"
  shows "alertsFor P (newAlerts st (checkFiles L fs cfg st)) = [] \<and>
         map_of (hashDB (checkFiles L fs cfg st)) P = map_of (hashDB st) P \<and>
         (\<forall>dir info s. \<not> IsDir info \<longrightarrow> checkFile L fs cfg dir P (Visit info) s = (Nil, s)) \<and>
         (\<forall>fs' Q. tree fs' = tree fs \<and> pstate fs' Q = pstate fs Q \<longrightarrow>
            alertsFor Q (newAlerts st (checkFiles L fs' cfg st)) =
              alertsFor Q (newAlerts st (checkFiles L fs cfg st)) \<and>
            map_of (hashDB (checkFiles L fs' cfg st)) Q =
              map_of (hashDB (checkFiles L fs cfg st)) Q)"
proof -
  let ?s = "st\<lparr>changesDetected := False\<rparr>"
  have keep: "\<not> deletable L fs cfg P" using assms(2) by (simp add: deletable_def)
  note k = checkFiles_kept [OF keep, of st]
  have w: "map_of (hashDB (walked L fs cfg st)) P = map_of (hashDB ?s) P \<and>
          alertsFor P (alerts (walked L fs cfg st)) = alertsFor P (alerts ?s)"
    unfolding walked_def by (rule fold_settled) (simp add: assms(1))
  then have "alertsFor P (alerts (checkFiles L fs cfg st)) = alertsFor P (alerts st) @ []"
    using k by simp
  then have "alertsFor P (newAlerts st (checkFiles L fs cfg st)) = []"
    by (rule alertsFor_new [OF checkFiles_alerts_grow])
  moreover have "map_of (hashDB (checkFiles L fs cfg st)) P = map_of (hashDB st) P"
    using k w by simp
  moreover have "checkFile L fs cfg dir P (Visit info) s = (Nil, s)" if "\<not> IsDir info"
    for dir info s
    using assms(1) that by (simp add: checkFile_def)
  ultimately show ?thesis using check_frame by blast
qed

theorem unreadable_file_untouched_witness:
  "calculateFileHash exFS ''/a/locked'' = None \<and> \<not> notExist exFS ''/a/locked'' \<and>
   alertsFor ''/a/locked'' (newAlerts (exState [(''/a/locked'', ''h6'')])
       (checkFiles posix exFS exCfg (exState [(''/a/locked'', ''h6'')]))) = [] \<and>
   map_of (hashDB (checkFiles posix exFS exCfg (exState [(''/a/locked'', ''h6'')]))) ''/a/locked''
     = Some ''h6'' \<and>
   checkFile posix exFS exCfg ''/a'' ''/a/locked''
       (Visit \<lparr>IsDir = False, IsRegular = True, Size = 7\<rparr>) (exState [(''/a/locked'', ''h6'')])
     = (Nil, exState [(''/a/locked'', ''h6'')]) \<and>
   tree exReadable = tree exFS \<and> pstate exReadable ''/a/x'' = pstate exFS ''/a/x'' \<and>
   alertsFor ''/a/x'' (newAlerts (exState [(''/a/locked'', ''h6'')])
       (checkFiles posix exFS exCfg (exState [(''/a/locked'', ''h6'')]))) =
     alertsFor ''/a/x'' (newAlerts (exState [(''/a/locked'', ''h6'')])
       (checkFiles posix exReadable exCfg (exState [(''/a/locked'', ''h6'')])))"
proof -
  have h: "calculateFileHash exFS ''/a/locked'' = None" "\<not> notExist exFS ''/a/locked''"
    by (simp_all add: calculateFileHash_def notExist_def ex_pstate)
  have t: "tree exReadable = tree exFS" "pstate exReadable ''/a/x'' = pstate exFS ''/a/x''"
    by (simp_all add: exReadable_def)
  note u = unreadable_file_untouched [OF h, of "exState [(''/a/locked'', ''h6'')]" posix exCfg]
  have a: "alertsFor ''/a/locked'' (newAlerts (exState [(''/a/locked'', ''h6'')])
       (checkFiles posix exFS exCfg (exState [(''/a/locked'', ''h6'')]))) = []"
    and m: "map_of (hashDB (checkFiles posix exFS exCfg (exState [(''/a/locked'', ''h6'')])))
       ''/a/locked'' = map_of (hashDB (exState [(''/a/locked'', ''h6'')])) ''/a/locked''"
    and c: "\<forall>dir info s. \<not> IsDir info \<longrightarrow>
       checkFile posix exFS exCfg dir ''/a/locked'' (Visit info) s = (Nil, s)"
    and f: "\<forall>fs' Q. tree fs' = tree exFS \<and> pstate fs' Q = pstate exFS Q \<longrightarrow>
       alertsFor Q (newAlerts (exState [(''/a/locked'', ''h6'')])
           (checkFiles posix fs' exCfg (exState [(''/a/locked'', ''h6'')]))) =
         alertsFor Q (newAlerts (exState [(''/a/locked'', ''h6'')])
           (checkFiles posix exFS exCfg (exState [(''/a/locked'', ''h6'')]))) \<and>
       map_of (hashDB (checkFiles posix fs' exCfg (exState [(''/a/locked'', ''h6'')]))) Q =
         map_of (hashDB (checkFiles posix exFS exCfg (exState [(''/a/locked'', ''h6'')]))) Q"
    using u by blast+
  have m': "map_of (hashDB (checkFiles posix exFS exCfg (exState [(''/a/locked'', ''h6'')])))
       ''/a/locked'' = Some ''h6''"
    using m by (simp add: exState_def)
  have c': "checkFile posix exFS exCfg ''/a'' ''/a/locked''
       (Visit \<lparr>IsDir = False, IsRegular = True, Size = 7\<rparr>) (exState [(''/a/locked'', ''h6'')])
     = (Nil, exState [(''/a/locked'', ''h6'')])"
    using c by simp
  have f': "alertsFor ''/a/x'' (newAlerts (exState [(''/a/locked'', ''h6'')])
       (checkFiles posix exFS exCfg (exState [(''/a/locked'', ''h6'')]))) =
     alertsFor ''/a/x'' (newAlerts (exState [(''/a/locked'', ''h6'')])
       (checkFiles posix exReadable exCfg (exState [(''/a/locked'', ''h6'')])))"
    using f t by metis
  show ?thesis
    using h t a m' c' f' by blast
qed

lemma va_visits:
  "visits posix (checkDecision posix exCfg ''/a'') ''/a'' (tree vaFS ''/a'') =
     [(''/a'', Visit \<lparr>IsDir = True, IsRegular = False, Size = 0\<rparr>),
      (''/a/v'', Visit \<lparr>IsDir = False, IsRegular = True, Size = 4\<rparr>),
      (''/a/x'', Visit \<lparr>IsDir = False, IsRegular = True, Size = 3\<rparr>)]"
  by (simp add: vaFS_def visits_def Walk_def tracing_def checkDecision_def posix_def unixJoin_def
      exCfg_def HasSuffix_def HasPrefix_def TrimSuffix_def suffix_to_prefix Let_def)

lemma va_fingerprinted:
  "fingerprinted posix vaFS exCfg =
     [(''/a/v'', \<lparr>IsDir = False, IsRegular = True, Size = 4\<rparr>),
      (''/a/x'', \<lparr>IsDir = False, IsRegular = True, Size = 3\<rparr>)]"
  unfolding fingerprinted_def
  by (simp add: exCfg_def [THEN arg_cong [where f = monitorDirs]] va_visits)
     (simp add: candidates_def eligible_def exCfg_def posix_def
        HasSuffix_def HasPrefix_def TrimSuffix_def suffix_to_prefix Let_def)

lemma va_pstate: "pstate vaFS ''/a/v'' = Gone" "pstate vaFS ''/a/x'' = Content ''h2''"
  by (simp_all add: vaFS_def)

text \<open>
  C8, as it is worded, fails for a file that is gone by the time it is opened: the listing
  of \<open>/a\<close> still names \<open>v\<close>, its content cannot be read, and \<open>os.Stat\<close> reports that it
  does not exist, so the deletion loop of the same check reports it deleted and removes its
  entry.
\<close>

theorem vanished_file_reported_deleted:
  "(''/a/v'', Visit \<lparr>IsDir = False, IsRegular = True, Size = 4\<rparr>)
     \<in> set (visits posix (checkDecision posix exCfg ''/a'') ''/a'' (tree vaFS ''/a'')) \<and>
   (''/a/v'', \<lparr>IsDir = False, IsRegular = True, Size = 4\<rparr>) \<in> set (fingerprinted posix vaFS exCfg) \<and>
   calculateFileHash vaFS ''/a/v'' = None \<and>
   map_of (hashDB (exState [(''/a/v'', ''h4'')])) ''/a/v'' = Some ''h4'' \<and>
   alertsFor ''/a/v'' (newAlerts (exState [(''/a/v'', ''h4'')])
       (checkFiles posix vaFS exCfg (exState [(''/a/v'', ''h4'')]))) = [DeletedFile ''/a/v''] \<and>
   map_of (hashDB (checkFiles posix vaFS exCfg (exState [(''/a/v'', ''h4'')]))) ''/a/v'' = None"
proof -
  have w: "walked posix vaFS exCfg (exState [(''/a/v'', ''h4'')]) =
      \<lparr>hashDB = [(''/a/v'', ''h4''), (''/a/x'', ''h2'')],
       alerts = [NewFile ''/a/x'' 3 ''h2''], changesDetected = True, dbFile = None\<rparr>"
    by (simp add: walked_def va_fingerprinted compareHash_def calculateFileHash_def va_pstate
        exState_def)
  have d: "deletable posix vaFS exCfg ''/a/v''" "\<not> deletable posix vaFS exCfg ''/a/x''"
    by (simp_all add: deletable_def notExist_def va_pstate exCfg_def posix_def
        HasSuffix_def HasPrefix_def TrimSuffix_def suffix_to_prefix Let_def)
  show ?thesis
    using d by (simp add: va_visits va_fingerprinted calculateFileHash_def va_pstate
        checkFiles_hashDB checkFiles_alerts deletionSweep_hashDB deletionSweep_alerts
        w [unfolded exState_def] newAlerts_def alertsFor_def exState_def)
qed

text \<open>
  C6. A second check on the same file system, with the same configuration, right after a
  first one, raises no alert and leaves the store as the first check left it.
\<close>

theorem check_idempotent:
  "newAlerts (checkFiles L fs cfg st) (checkFiles L fs cfg (checkFiles L fs cfg st)) = [] \<and>
   hashDB (checkFiles L fs cfg (checkFiles L fs cfg st)) = hashDB (checkFiles L fs cfg st)"
proof -
  let ?F = "fingerprinted L fs cfg"
  let ?st1 = "checkFiles L fs cfg st"
  let ?s = "?st1\<lparr>changesDetected := False\<rparr>"
  have est: "\<forall>v\<in>set ?F. calculateFileHash fs (fst v) = None \<or>
      map_of (hashDB (walked L fs cfg st)) (fst v) = calculateFileHash fs (fst v)"
    unfolding walked_def by (rule fold_establishes)
  have settled: "\<forall>v\<in>set ?F. calculateFileHash fs (fst v) = None \<or>
      map_of (hashDB ?s) (fst v) = calculateFileHash fs (fst v)"
  proof
    fix v assume v: "v \<in> set ?F"
    show "calculateFileHash fs (fst v) = None \<or>
      map_of (hashDB ?s) (fst v) = calculateFileHash fs (fst v)"
    proof (cases "calculateFileHash fs (fst v)")
      case None
      then show ?thesis by simp
    next
      case (Some h)
      then have "\<not> deletable L fs cfg (fst v)" by (rule content_kept)
      then show ?thesis using est v Some by (auto simp: checkFiles_kept(1))
    qed
  qed
  have w: "walked L fs cfg ?st1 = ?s"
    unfolding walked_def using settled by (rule fold_noop)
  have nodel: "\<forall>k\<in>set (map fst (hashDB ?s)). \<not> deletable L fs cfg k"
    by (auto simp: checkFiles_hashDB deletionSweep_hashDB)
  have sw: "deletionSweep L fs cfg ?s = ?s"
    unfolding deletionSweep_def using nodel by (rule sweep_noop)
  have "checkFiles L fs cfg ?st1 = ?s"
    using w sw by (simp add: checkFiles_def Let_def walkDirs_checkFile walked_def)
  then show ?thesis by (simp add: newAlerts_def)
qed

section \<open>A regular file replaced by another kind of entry\<close>








section \<open>The baseline that initHashDB builds\<close>

lemma fst_initFile: "fst (initFile fs dir path arg st) = initDecision path arg"
  by (simp add: initFile_def initDecision_def split: walkArg.splits option.splits)

lemma snd_initFile:
  "snd (initFile fs dir path arg st) = foldl (storeHash fs) st (nonDirs (path, arg))"
  by (simp add: initFile_def nonDirs_def storeHash_def split: walkArg.splits option.splits)

lemma Walk_initFile:
  "snd (Walk L (initFile fs dir) root node st) =
     foldl (storeHash fs) st (concat (map nonDirs (visits L initDecision root node)))"
proof -
  have "snd (Walk L (initFile fs dir) root node st) =
          foldl (\<lambda>s (p, a). snd (initFile fs dir p a s)) st (visits L initDecision root node)"
    by (rule Walk_visits) (rule fst_initFile)
  also have "(\<lambda>s (p, a). snd (initFile fs dir p a s)) =
             (\<lambda>s x. foldl (storeHash fs) s (nonDirs x))"
    by (intro ext) (simp add: snd_initFile split: prod.splits)
  finally show ?thesis by (simp add: foldl_concat_map)
qed

lemma walkDirs_initFile:
  "walkDirs L fs (initFile fs) (monitorDirs cfg) st = foldl (storeHash fs) st (baselined L fs cfg)"
  by (simp add: walkDirs_def baselined_def foldl_concat_map Walk_initFile)





lemma rebuild_hashDB:
  "hashDB (rebuild L fs cfg st) = hashDB (foldl (storeHash fs) st (baselined L fs cfg))"
  by (simp add: rebuild_def saveHashDB_def walkDirs_initFile)


lemma eligible_not_excluded:
  "(P, info) \<in> set (fingerprinted L fs cfg) \<Longrightarrow> \<not> shouldExclude L P (exclude cfg)"
  by (auto simp: fingerprinted_def candidates_def eligible_def split: walkArg.splits if_splits)

lemma fingerprinted_within_limit:
  "(P, info) \<in> set (fingerprinted L fs cfg) \<Longrightarrow>
     IsRegular info \<and> \<not> (0 < MaxFileSize cfg \<and> MaxFileSize cfg < Size info)"
  by (auto simp: fingerprinted_def candidates_def eligible_def split: walkArg.splits if_splits)

lemma check_excluded_untouched:
  assumes "shouldExclude L P (exclude cfg)"
  shows "map_of (hashDB (checkFiles L fs cfg st)) P = map_of (hashDB st) P \<and>
         alertsFor P (newAlerts st (checkFiles L fs cfg st)) = []"
proof -
  have keep: "\<not> deletable L fs cfg P" using assms by (simp add: deletable_def)
  have "P \<notin> fst ` set (fingerprinted L fs cfg)"
    using assms eligible_not_excluded by fastforce
  then have w: "map_of (hashDB (walked L fs cfg st)) P = map_of (hashDB (st\<lparr>changesDetected := False\<rparr>)) P \<and>
        alertsFor P (alerts (walked L fs cfg st)) = alertsFor P (alerts (st\<lparr>changesDetected := False\<rparr>))"
    unfolding walked_def by (rule fold_other)
  then have "alertsFor P (alerts (checkFiles L fs cfg st)) = alertsFor P (alerts st) @ []"
    using checkFiles_kept(2) [OF keep, of st] by simp
  then have "alertsFor P (newAlerts st (checkFiles L fs cfg st)) = []"
    by (rule alertsFor_new [OF checkFiles_alerts_grow])
  then show ?thesis using w checkFiles_kept(1) [OF keep, of st] by simp
qed

lemma ex_rebuild:
  "hashDB (rebuild posix exFS exCfg (exState [])) =
     [(''/a/b/f'', ''hf''), (''/a/big'', ''hb''), (''/a/x'', ''h2'')]"
  by (simp add: rebuild_hashDB ex_baselined storeHash_def calculateFileHash_def ex_pstate
      exState_def)

lemma ex_start: "startState = exState []"
  by (simp add: startState_def exState_def)

lemma ex_excluded: "shouldExclude posix ''/a/b/f'' (exclude exCfg)"
  by (simp add: exCfg_def posix_def HasSuffix_def HasPrefix_def TrimSuffix_def suffix_to_prefix
      Let_def)


lemma baselined_error_free:
  assumes "\<forall>dir\<in>set (monitorDirs cfg). errorFree (tree fs dir)"
  shows "baselined L fs cfg =
           concat (map (\<lambda>dir. map fst (filter (\<lambda>e. \<not> IsDir (snd e))
                          (below L (\<lambda>p. False) dir (tree fs dir))))
                       (monitorDirs cfg))"
proof -
  have "concat (map nonDirs (map (\<lambda>e. (fst e, Visit (snd e))) es)) =
        map fst (filter (\<lambda>e. \<not> IsDir (snd e)) es)" for es :: "(string \<times> fileinfo) list"
    by (induction es) (simp_all add: nonDirs_def)
  then show ?thesis
    using assms
    by (auto simp: baselined_def initDecision_pruning visits_error_free intro!: arg_cong [where f = concat])
qed






text \<open>
  C1 fails on the first run (no data base file): the walk of \<open>initHashDB\<close> applies no
  exclusion rule, so the file \<open>/a/b/f\<close>, which the rule \<open>/a/b/\<close> excludes, gets an entry in
  the store; the checks that follow never remove it.
\<close>

theorem baseline_holds_excluded_file:
  "shouldExclude posix ''/a/b/f'' (exclude exCfg) \<and>
   map_of (hashDB (initHashDB posix exFS exCfg StatFail startState)) ''/a/b/f'' = Some ''hf'' \<and>
   map_of (hashDB (main posix exCfg StatFail exFS [exFS, exFS])) ''/a/b/f'' = Some ''hf''"
proof -
  have i: "map_of (hashDB (initHashDB posix exFS exCfg StatFail startState)) ''/a/b/f'' = Some ''hf''"
    by (simp add: initHashDB_def ex_start ex_rebuild)
  then show ?thesis
    using ex_excluded
    by (simp add: main_def startMonitoring_def check_excluded_untouched)
qed

text \<open>
  C5 fails on the first run: the walk of \<open>initHashDB\<close> does not look at the size, so the
  file \<open>/a/big\<close>, larger than \<open>MaxFileSize\<close>, is fingerprinted and gets an entry in the
  store (a check would pass it by).
\<close>

theorem baseline_holds_oversize_file:
  "0 < MaxFileSize exCfg \<and> MaxFileSize exCfg < 20000000 \<and>
   (''/a/big'', Visit \<lparr>IsDir = False, IsRegular = True, Size = 20000000\<rparr>)
     \<in> set (visits posix initDecision ''/a'' (tree exFS ''/a'')) \<and>
   map_of (hashDB (initHashDB posix exFS exCfg StatFail startState)) ''/a/big'' = Some ''hb'' \<and>
   ''/a/big'' \<notin> fst ` set (fingerprinted posix exFS exCfg)"
proof -
  have "0 < MaxFileSize exCfg \<and> MaxFileSize exCfg < 20000000"
    by (simp add: exCfg_def)
  then show ?thesis
    by (simp add: initHashDB_def ex_start ex_rebuild ex_tree ex_init_visits ex_fingerprinted)
qed

section \<open>The scenario of the specification\<close>

text \<open>
  The first check records \<open>a.txt\<close> and reports it as new, and never records \<open>b.log\<close>;
  after a change of \<open>a.txt\<close> the next check reports it modified, with the old and the new
  fingerprint; after its deletion the next check reports it deleted and the store is empty.
\<close>

lemma sc_excluded:
  "shouldExclude posix ''/data/b.log'' [''*.log'']" "\<not> shouldExclude posix ''/data/a.txt'' [''*.log'']"
  "\<not> shouldExclude posix ''/data'' [''*.log'']"
  by (simp_all add: posix_def HasSuffix_def suffix_to_prefix unixBase_def Let_def)

lemma sc_fingerprinted:
  "fingerprinted posix (scFS h) scCfg = [(''/data/a.txt'', \<lparr>IsDir = False, IsRegular = True, Size = 1\<rparr>)]"
  "fingerprinted posix scGone scCfg = []"
  using sc_excluded
  by (simp_all add: fingerprinted_def scCfg_def scFS_def scGone_def visits_def Walk_def tracing_def
      checkDecision_def candidates_def eligible_def posix_def unixJoin_def)

lemma sc_pstate:
  "pstate (scFS h) ''/data/a.txt'' = Content h" "pstate scGone ''/data/a.txt'' = Gone"
  by (simp_all add: scFS_def scGone_def)

lemma sc_deletable:
  "\<not> deletable posix (scFS h) scCfg ''/data/a.txt''" "deletable posix scGone scCfg ''/data/a.txt''"
  using sc_excluded by (simp_all add: deletable_def notExist_def sc_pstate scCfg_def)

lemma scenario_of_the_specification:
  "hashDB (checkFiles posix (scFS ''Hx'') scCfg startState) = [(''/data/a.txt'', ''Hx'')] \<and>
   alerts (checkFiles posix (scFS ''Hx'') scCfg startState) = [NewFile ''/data/a.txt'' 1 ''Hx''] \<and>
   hashDB (startMonitoring posix scCfg [scFS ''Hx'', scFS ''Hz''] startState) =
     [(''/data/a.txt'', ''Hz'')] \<and>
   alerts (startMonitoring posix scCfg [scFS ''Hx'', scFS ''Hz''] startState) =
     [NewFile ''/data/a.txt'' 1 ''Hx'', ModifiedFile ''/data/a.txt'' 1 ''Hx'' ''Hz''] \<and>
   hashDB (startMonitoring posix scCfg [scFS ''Hx'', scFS ''Hz'', scGone] startState) = [] \<and>
   alerts (startMonitoring posix scCfg [scFS ''Hx'', scFS ''Hz'', scGone] startState) =
     [NewFile ''/data/a.txt'' 1 ''Hx'', ModifiedFile ''/data/a.txt'' 1 ''Hx'' ''Hz'',
      DeletedFile ''/data/a.txt'']"
proof -
  let ?s1 = "checkFiles posix (scFS ''Hx'') scCfg startState"
  let ?s2 = "checkFiles posix (scFS ''Hz'') scCfg ?s1"
  let ?s3 = "checkFiles posix scGone scCfg ?s2"
  have w1: "hashDB (walked posix (scFS ''Hx'') scCfg startState) = [(''/data/a.txt'', ''Hx'')]"
    "alerts (walked posix (scFS ''Hx'') scCfg startState) = [NewFile ''/data/a.txt'' 1 ''Hx'']"
    by (simp_all add: walked_def sc_fingerprinted compareHash_def calculateFileHash_def sc_pstate
        startState_def)
  have s1: "hashDB ?s1 = [(''/data/a.txt'', ''Hx'')]" "alerts ?s1 = [NewFile ''/data/a.txt'' 1 ''Hx'']"
    using sc_deletable
    by (simp_all add: checkFiles_hashDB checkFiles_alerts deletionSweep_hashDB deletionSweep_alerts w1)
  have w2: "hashDB (walked posix (scFS ''Hz'') scCfg ?s1) = [(''/data/a.txt'', ''Hz'')]"
    "alerts (walked posix (scFS ''Hz'') scCfg ?s1) =
       [NewFile ''/data/a.txt'' 1 ''Hx'', ModifiedFile ''/data/a.txt'' 1 ''Hx'' ''Hz'']"
    by (simp_all add: walked_def sc_fingerprinted compareHash_def calculateFileHash_def sc_pstate s1)
  have "hashDB ?s2 = filter (\<lambda>kv. \<not> deletable posix (scFS ''Hz'') scCfg (fst kv))
                       (hashDB (walked posix (scFS ''Hz'') scCfg ?s1))"
    by (rule trans [OF checkFiles_hashDB deletionSweep_hashDB])
  moreover have "alerts ?s2 = alerts (walked posix (scFS ''Hz'') scCfg ?s1) @
      map DeletedFile (filter (deletable posix (scFS ''Hz'') scCfg)
        (map fst (hashDB (walked posix (scFS ''Hz'') scCfg ?s1))))"
    by (rule trans [OF checkFiles_alerts deletionSweep_alerts])
  ultimately have s2: "hashDB ?s2 = [(''/data/a.txt'', ''Hz'')]"
    "alerts ?s2 = [NewFile ''/data/a.txt'' 1 ''Hx'', ModifiedFile ''/data/a.txt'' 1 ''Hx'' ''Hz'']"
    using sc_deletable by (simp_all add: w2)
  have w3: "hashDB (walked posix scGone scCfg ?s2) = hashDB ?s2"
    "alerts (walked posix scGone scCfg ?s2) = alerts ?s2"
    by (simp_all add: walked_def sc_fingerprinted)
  have "hashDB ?s3 = filter (\<lambda>kv. \<not> deletable posix scGone scCfg (fst kv))
                       (hashDB (walked posix scGone scCfg ?s2))"
    by (rule trans [OF checkFiles_hashDB deletionSweep_hashDB])
  moreover have "alerts ?s3 = alerts (walked posix scGone scCfg ?s2) @
      map DeletedFile (filter (deletable posix scGone scCfg)
        (map fst (hashDB (walked posix scGone scCfg ?s2))))"
    by (rule trans [OF checkFiles_alerts deletionSweep_alerts])
  ultimately have s3: "hashDB ?s3 = []"
    "alerts ?s3 = [NewFile ''/data/a.txt'' 1 ''Hx'', ModifiedFile ''/data/a.txt'' 1 ''Hx'' ''Hz'',
       DeletedFile ''/data/a.txt'']"
    using sc_deletable by (simp_all add: w3 s2)
  show ?thesis
    by (simp add: startMonitoring_def s1 s2 s3)
qed

section \<open>The keys of the store\<close>

text \<open>
  The store is a Go map, a list with distinct keys here; the walks, the deletion loop and
  the building of the baseline keep the keys distinct.
\<close>

lemma compareHash_distinct:
  "distinct (map fst (hashDB s)) \<Longrightarrow> distinct (map fst (hashDB (compareHash fs s v)))"
  by (simp add: compareHash_def distinct_update split: option.splits)

lemma walked_distinct:
  assumes "distinct (map fst (hashDB st))"
  shows "distinct (map fst (hashDB (walked L fs cfg st)))"
proof -
  have "distinct (map fst (hashDB s)) \<Longrightarrow> distinct (map fst (hashDB (foldl (compareHash fs) s xs)))"
    for s xs
    by (induction xs arbitrary: s) (simp_all add: compareHash_distinct)
  then show ?thesis using assms by (simp add: walked_def)
qed

lemma checkFiles_distinct:
  assumes "distinct (map fst (hashDB st))"
  shows "distinct (map fst (hashDB (checkFiles L fs cfg st)))"
  using walked_distinct [OF assms, of L fs cfg]
  by (simp add: checkFiles_hashDB deletionSweep_hashDB distinct_map_filter)

lemma rebuild_distinct:
  assumes "distinct (map fst (hashDB st))"
  shows "distinct (map fst (hashDB (rebuild L fs cfg st)))"
proof -
  have "distinct (map fst (hashDB s)) \<Longrightarrow> distinct (map fst (hashDB (foldl (storeHash fs) s ps)))"
    for s ps
    by (induction ps arbitrary: s) (simp_all add: storeHash_def distinct_update split: option.splits)
  then show ?thesis using assms by (simp add: rebuild_hashDB)
qed

section \<open>Saving the store\<close>

text \<open>
  C9 fails for a path that is not valid UTF-8: \<open>saveHashDB\<close> writes the escape of U+FFFD for
  each invalid byte, so that two different stores are written as the same file, and no
  reading of that file gives back both.
\<close>

theorem save_confuses_invalid_utf8:
  "[CHR ''/'', CHR 0xFF] \<noteq> [CHR ''/'', CHR 0xFE] \<and>
   dbFile (saveHashDB exFS (exState [([CHR ''/'', CHR 0xFF], ''h'')])) =
     Some (''{'' @ [CHR 0x0A] @ ''  '' @ [CHR 0x22] @ ''/'' @ [CHR 0x5C] @ ''ufffd'' @ [CHR 0x22] @
           '': '' @ [CHR 0x22] @ ''h'' @ [CHR 0x22, CHR 0x0A] @ ''}'') \<and>
   dbFile (saveHashDB exFS (exState [([CHR ''/'', CHR 0xFE], ''h'')])) =
     dbFile (saveHashDB exFS (exState [([CHR ''/'', CHR 0xFF], ''h'')]))"
  by (simp add: saveHashDB_def exFS_def exState_def MarshalIndent_def quote_def byte_def
      htmlSafe_def between_def)

end
